theory Spec2Isabelle
  imports Main "HOL-Library.Word" "HOL-Library.Multiset" "HOL-Library.Infinite_Set"
    "HOL-Library.Extended_Nat" "HOL-Library.Sublist"
begin

unbundle bit_operations_syntax

section \<open>Version strings and their comparison\<close>

text \<open>
  The version comparator of \<open>MigrationManager\<close> works on JavaScript numbers. \<open>jsnum\<close> holds the
  numbers that arise from a version string: \<open>NaN\<close>, the doubles with an integral value (given
  by that integer) and the two infinities. \<open>toDouble\<close> is the double nearest to an integer:
  53 significant bits, ties to even, and infinity from \<open>2 ^ 1024\<close> on.

  \<open>Number\<close> reads a segment that is a run of decimal digits as the double nearest to its
  decimal value, the empty segment as 0, and every other segment as \<open>NaN\<close>. The notations
  that the language reads besides these (a sign, an exponent, another radix, white space
  around the digits) are not modelled; the statements about the order of versions are made
  for versions whose segments are runs of decimal digits (\<open>decimal_version\<close>, and
  \<open>numeric_version\<close> with a bound on the values).

  \<open>split_dot\<close> is \<open>split('.')\<close>, \<open>at_index\<close> the read of an array element, which is
  \<open>undefined\<close> (here \<open>None\<close>) past the end, \<open>or0\<close> the operation \<open>x || 0\<close>, \<open>strict_neq\<close> the
  operator \<open>!==\<close> and \<open>js_sub\<close> the subtraction. \<open>compare_from\<close> is the loop of
  \<open>compareVersions\<close> from index \<open>i\<close> on.
\<close>

datatype jsnum = NaN | Num int | PosInf | NegInf

fun bit_length :: "nat \<Rightarrow> nat" where
  "bit_length n = (if n = 0 then 0 else Suc (bit_length (n div 2)))"

declare bit_length.simps [simp del]

definition round53 :: "nat \<Rightarrow> nat" where
  "round53 n =
     (if n < 2 ^ 53 then n
      else let e = bit_length n - 53; q = n div 2 ^ e; r = n mod 2 ^ e; h = 2 ^ (e - 1)
           in (if r < h \<or> (r = h \<and> even q) then q else q + 1) * 2 ^ e)"

definition toDouble :: "int \<Rightarrow> jsnum" where
  "toDouble x =
     (let r = round53 (nat \<bar>x\<bar>)
      in if 1024 < bit_length r then (if x < 0 then NegInf else PosInf)
         else Num (sgn x * int r))"

definition is_digit :: "char \<Rightarrow> bool" where
  "is_digit c = (48 \<le> (of_char c :: nat) \<and> (of_char c :: nat) \<le> 57)"

definition digits_value :: "string \<Rightarrow> nat" where
  "digits_value s = foldl (\<lambda>n c. 10 * n + (of_char c - 48)) 0 s"

definition Number :: "string \<Rightarrow> jsnum" where
  "Number s = (if list_all is_digit s then toDouble (int (digits_value s)) else NaN)"

fun split_dot :: "string \<Rightarrow> string list" where
  "split_dot [] = [[]]"
| "split_dot (c # cs) =
     (if c = CHR ''.'' then [] # split_dot cs
      else (case split_dot cs of [] \<Rightarrow> [[c]] | p # ps \<Rightarrow> (c # p) # ps))"

definition or0 :: "jsnum option \<Rightarrow> jsnum" where
  "or0 v = (case v of None \<Rightarrow> Num 0 | Some NaN \<Rightarrow> Num 0 | Some x \<Rightarrow> x)"

definition at_index :: "'a list \<Rightarrow> nat \<Rightarrow> 'a option" where
  "at_index xs i = (if i < length xs then Some (xs ! i) else None)"

definition strict_neq :: "jsnum \<Rightarrow> jsnum \<Rightarrow> bool" where
  "strict_neq a b = (a = NaN \<or> b = NaN \<or> a \<noteq> b)"

fun js_sub :: "jsnum \<Rightarrow> jsnum \<Rightarrow> jsnum" where
  "js_sub (Num a) (Num b) = toDouble (a - b)"
| "js_sub NaN _ = NaN"
| "js_sub _ NaN = NaN"
| "js_sub PosInf PosInf = NaN"
| "js_sub NegInf NegInf = NaN"
| "js_sub PosInf _ = PosInf"
| "js_sub NegInf _ = NegInf"
| "js_sub (Num a) PosInf = NegInf"
| "js_sub (Num a) NegInf = PosInf"

function compare_from :: "jsnum list \<Rightarrow> jsnum list \<Rightarrow> nat \<Rightarrow> jsnum" where
  "compare_from partsA partsB i =
     (if i < max (length partsA) (length partsB) then
        (if strict_neq (or0 (at_index partsA i)) (or0 (at_index partsB i))
         then js_sub (or0 (at_index partsA i)) (or0 (at_index partsB i))
         else compare_from partsA partsB (Suc i))
      else Num 0)"
  by pat_completeness auto
termination
  by (relation "measure (\<lambda>(partsA, partsB, i). max (length partsA) (length partsB) - i)") auto

declare compare_from.simps [simp del]

definition compareVersions :: "string \<Rightarrow> string \<Rightarrow> jsnum" where
  "compareVersions a b =
     compare_from (map Number (split_dot a)) (map Number (split_dot b)) 0"

text \<open>
  \<open>Array_sort\<close> is the sort of an array with a comparator, as a stable insertion sort: an
  element moves behind the elements it compares greater than (\<open>js_gt0\<close>, a positive result)
  and stays in front of the others. The comparator of versions is a total preorder
  (\<open>not_after_total\<close> and \<open>not_after_trans\<close> below); for such a comparator the result of a
  stable sort is determined, whatever algorithm produces it.
\<close>

definition js_gt0 :: "jsnum \<Rightarrow> bool" where
  "js_gt0 v = (case v of Num n \<Rightarrow> 0 < n | PosInf \<Rightarrow> True | _ \<Rightarrow> False)"

fun insert_by :: "('a \<Rightarrow> 'a \<Rightarrow> jsnum) \<Rightarrow> 'a \<Rightarrow> 'a list \<Rightarrow> 'a list" where
  "insert_by cmp x [] = [x]"
| "insert_by cmp x (y # ys) =
     (if js_gt0 (cmp x y) then y # insert_by cmp x ys else x # y # ys)"

definition Array_sort :: "('a \<Rightarrow> 'a \<Rightarrow> jsnum) \<Rightarrow> 'a list \<Rightarrow> 'a list" where
  "Array_sort cmp xs = foldr (insert_by cmp) xs []"

text \<open>
  The comparison in the words of the specification, for reference: the segments of a
  version as integers (\<open>segment_values\<close>) and the difference of the first unequal pair, an
  absent segment counting as 0 (\<open>spec_compare\<close>). \<open>numeric_version\<close> holds of the versions
  whose segments are runs of decimal digits with values below \<open>2 ^ 53\<close>, the integers a double
  holds exactly. \<open>not_after a b\<close> says that the comparator does not put \<open>a\<close> behind \<open>b\<close>;
  \<open>version_key\<close> and \<open>lexle\<close> describe it as the lexicographic order of the segment values.
\<close>

definition decimal_version :: "string \<Rightarrow> bool" where
  "decimal_version v = list_all (list_all is_digit) (split_dot v)"

definition numeric_segment :: "string \<Rightarrow> bool" where
  "numeric_segment s = (list_all is_digit s \<and> digits_value s < 2 ^ 53)"

definition numeric_version :: "string \<Rightarrow> bool" where
  "numeric_version v = list_all numeric_segment (split_dot v)"

definition segment_values :: "string \<Rightarrow> int list" where
  "segment_values v = map (\<lambda>s. int (digits_value s)) (split_dot v)"

fun spec_compare :: "int list \<Rightarrow> int list \<Rightarrow> int" where
  "spec_compare [] [] = 0"
| "spec_compare (x # xs) [] = (if x \<noteq> 0 then x - 0 else spec_compare xs [])"
| "spec_compare [] (y # ys) = (if 0 \<noteq> y then 0 - y else spec_compare [] ys)"
| "spec_compare (x # xs) (y # ys) = (if x \<noteq> y then x - y else spec_compare xs ys)"

definition not_after :: "string \<Rightarrow> string \<Rightarrow> bool" where
  "not_after a b = (\<not> js_gt0 (compareVersions a b))"

definition lexle :: "(nat \<Rightarrow> 'a::linorder) \<Rightarrow> (nat \<Rightarrow> 'a) \<Rightarrow> bool" where
  "lexle f g = ((\<forall>i. f i = g i) \<or> (\<exists>k. (\<forall>j<k. f j = g j) \<and> f k < g k))"

definition key :: "jsnum \<Rightarrow> enat" where
  "key x = (case x of Num n \<Rightarrow> enat (nat n) | PosInf \<Rightarrow> \<infinity> | _ \<Rightarrow> 0)"

definition nonneg :: "jsnum \<Rightarrow> bool" where
  "nonneg x = (case x of Num n \<Rightarrow> 0 \<le> n | PosInf \<Rightarrow> True | _ \<Rightarrow> False)"

definition version_key :: "string \<Rightarrow> nat \<Rightarrow> enat" where
  "version_key v i = key (or0 (at_index (map Number (split_dot v)) i))"

section \<open>The migration unit and the database\<close>

text \<open>
  A migration unit (\<open>Migration\<close>) carries its metadata and, for \<open>up()\<close> and \<open>down()\<close>, the
  list of statements it hands to \<open>executeBatch\<close>, as the units of the repository do. The
  ledger is the table \<open>migrations\<close>; a row has the columns the table is created with, and
  \<open>metadata\<close> holds the description and the dependencies.

  The database is part of the state \<open>world\<close>:
  \<^item> \<open>schema\<close> is the committed state the statements of the units act on, of any type \<open>'s\<close>;
    what a statement does is a parameter \<open>sem\<close>, with \<open>None\<close> for a statement the database
    rejects;
  \<^item> \<open>transaction\<close> is the uncommitted state of the transaction that is open on the client
    of the pool, if there is one. It belongs to the client and stays with it when the client
    goes back to the pool;
  \<^item> \<open>ledger\<close> is the list of ledger rows, \<open>None\<close> while the table does not exist;
  \<^item> \<open>clock\<close> stamps the rows (\<open>applied_at\<close>);
  \<^item> \<open>faults\<close> says which of the coming calls the database rejects whatever they ask (a lost
    connection, a timeout): the head \<open>True\<close> rejects the next call. Every call takes one
    entry, and an empty list rejects nothing;
  \<^item> \<open>trace\<close> records what happened, in order: the methods of a unit that were invoked, the
    calls sent to the database, and the lines written to the console.

  Two things are assumed of the environment. The statements of the units are changes of the
  schema: they act on \<open>schema\<close>, leave the table \<open>migrations\<close> alone and do not end the
  transaction they run in. The calls of \<open>validate\<close>, \<open>recordMigration\<close> and
  \<open>removeMigrationRecord\<close>, which go through \<open>pool.query\<close>, act on the ledger at once.

  Strings are lists of bytes (the UTF-8 encoding of the text); the length of a value for a
  \<open>VARCHAR\<close> column is counted in characters, the bytes that do not continue a character.
\<close>

record MigrationMeta =
  id' :: string
  name :: string
  description :: string
  version :: string
  dependencies :: "string list option"

record Migration =
  meta :: MigrationMeta
  up_queries :: "string list"
  down_queries :: "string list"

record MigrationManager =
  migrations :: "Migration list"

record LedgerRow =
  row_id :: string
  row_name :: string
  row_version :: string
  applied_at :: nat
  checksum :: string
  metadata :: "string \<times> string list"

datatype db_call =
    Connect
  | Begin
  | Commit
  | Rollback
  | Statement string
  | TableExists
  | CreateTable
  | SelectRow string
  | InsertRow string string string string "string \<times> string list"
  | DeleteRow string

datatype error = QueryError db_call | Error string

datatype unit_method = Validate | Up | Down | RecordMigration | RemoveMigrationRecord

datatype event =
    Invoke unit_method Migration
  | Query db_call
  | ConsoleLog string
  | ConsoleError string error

record 's world =
  schema :: 's
  transaction :: "'s option"
  ledger :: "LedgerRow list option"
  clock :: nat
  faults :: "bool list"
  trace :: "event list"

text \<open>
  The calls of the database. \<open>issue\<close> sends a call: it records it, takes the next entry of
  \<open>faults\<close> and says whether the call may go through. A call that is rejected changes
  nothing else. \<open>connect\<close> takes the client from the pool and \<open>release\<close> gives it back, both
  as it is: a transaction that neither \<open>COMMIT\<close> nor \<open>ROLLBACK\<close> has closed stays open on the
  client, a \<open>BEGIN\<close> on such a client goes on in the open transaction, and the next \<open>COMMIT\<close>
  commits all of it. A statement runs in the open transaction, or directly on the schema
  when there is none.

  \<open>create_table\<close> fails when the table exists, and every call on the ledger fails while the
  table is missing. \<open>varchar n\<close> is what a column \<open>VARCHAR(n)\<close> stores of a value: the value
  itself when it has at most \<open>n\<close> characters, its first \<open>n\<close> characters when all the
  characters after them are spaces, and nothing (the value is rejected) otherwise.
  \<open>insert_row\<close> fails when a value is rejected by its column or a row with the id, as it is
  stored, is present (the primary key).
\<close>

definition emit :: "event \<Rightarrow> 's world \<Rightarrow> 's world" where
  "emit e w = w\<lparr>trace := trace w @ [e]\<rparr>"

definition issue :: "db_call \<Rightarrow> 's world \<Rightarrow> bool \<times> 's world" where
  "issue c w =
     (faults w = [] \<or> \<not> hd (faults w),
      emit (Query c) (w\<lparr>faults := tl (faults w)\<rparr>))"

definition connect :: "'s world \<Rightarrow> (error + unit) \<times> 's world" where
  "connect w =
     (case issue Connect w of (ok, w1) \<Rightarrow>
        if ok then (Inr (), w1)
        else (Inl (QueryError Connect), w1))"

definition release :: "'s world \<Rightarrow> 's world" where
  "release w = w"

definition begin_tx :: "'s world \<Rightarrow> (error + unit) \<times> 's world" where
  "begin_tx w =
     (case issue Begin w of (ok, w1) \<Rightarrow>
        if ok then
          (Inr (), w1\<lparr>transaction :=
             Some (case transaction w1 of None \<Rightarrow> schema w1 | Some t \<Rightarrow> t)\<rparr>)
        else (Inl (QueryError Begin), w1))"

definition commit_tx :: "'s world \<Rightarrow> (error + unit) \<times> 's world" where
  "commit_tx w =
     (case issue Commit w of (ok, w1) \<Rightarrow>
        if ok then
          (Inr (), (case transaction w1 of
                      None \<Rightarrow> w1
                    | Some t \<Rightarrow> w1\<lparr>schema := t, transaction := None\<rparr>))
        else (Inl (QueryError Commit), w1))"

definition rollback_tx :: "'s world \<Rightarrow> (error + unit) \<times> 's world" where
  "rollback_tx w =
     (case issue Rollback w of (ok, w1) \<Rightarrow>
        if ok then (Inr (), w1\<lparr>transaction := None\<rparr>)
        else (Inl (QueryError Rollback), w1))"

definition statement ::
  "(string \<Rightarrow> 's \<Rightarrow> 's option) \<Rightarrow> string \<Rightarrow> 's world \<Rightarrow> (error + unit) \<times> 's world" where
  "statement sem q w =
     (case issue (Statement q) w of (ok, w1) \<Rightarrow>
        if \<not> ok then (Inl (QueryError (Statement q)), w1)
        else
          (case transaction w1 of
             Some t \<Rightarrow>
               (case sem q t of
                  Some t' \<Rightarrow> (Inr (), w1\<lparr>transaction := Some t'\<rparr>)
                | None \<Rightarrow> (Inl (QueryError (Statement q)), w1))
           | None \<Rightarrow>
               (case sem q (schema w1) of
                  Some s' \<Rightarrow> (Inr (), w1\<lparr>schema := s'\<rparr>)
                | None \<Rightarrow> (Inl (QueryError (Statement q)), w1))))"

definition table_exists :: "'s world \<Rightarrow> (error + bool) \<times> 's world" where
  "table_exists w =
     (case issue TableExists w of (ok, w1) \<Rightarrow>
        if ok then (Inr (ledger w1 \<noteq> None), w1)
        else (Inl (QueryError TableExists), w1))"

definition create_table :: "'s world \<Rightarrow> (error + unit) \<times> 's world" where
  "create_table w =
     (case issue CreateTable w of (ok, w1) \<Rightarrow>
        if ok \<and> ledger w1 = None then (Inr (), w1\<lparr>ledger := Some []\<rparr>)
        else (Inl (QueryError CreateTable), w1))"

definition select_row :: "string \<Rightarrow> 's world \<Rightarrow> (error + LedgerRow list) \<times> 's world" where
  "select_row i w =
     (case issue (SelectRow i) w of (ok, w1) \<Rightarrow>
        (case ledger w1 of
           Some rows \<Rightarrow>
             if ok then (Inr (filter (\<lambda>r. row_id r = i) rows), w1)
             else (Inl (QueryError (SelectRow i)), w1)
         | None \<Rightarrow> (Inl (QueryError (SelectRow i)), w1)))"

definition continuation :: "char \<Rightarrow> bool" where
  "continuation c = (128 \<le> (of_char c :: nat) \<and> (of_char c :: nat) < 192)"

definition char_length :: "string \<Rightarrow> nat" where
  "char_length s = length (filter (\<lambda>c. \<not> continuation c) s)"

fun take_chars :: "nat \<Rightarrow> string \<Rightarrow> string" where
  "take_chars n [] = []"
| "take_chars n (c # cs) =
     (if continuation c then c # take_chars n cs
      else (case n of 0 \<Rightarrow> [] | Suc k \<Rightarrow> c # take_chars k cs))"

definition varchar :: "nat \<Rightarrow> string \<Rightarrow> string option" where
  "varchar n s =
     (if char_length s \<le> n then Some s
      else if list_all (\<lambda>c. c = CHR '' '') (drop (length (take_chars n s)) s)
        then Some (take_chars n s)
      else None)"

definition new_row ::
  "string \<Rightarrow> string \<Rightarrow> string \<Rightarrow> string \<Rightarrow> string \<times> string list \<Rightarrow> nat
     \<Rightarrow> LedgerRow option" where
  "new_row i n v c md t =
     (case varchar 255 i of None \<Rightarrow> None | Some i' \<Rightarrow>
      case varchar 255 n of None \<Rightarrow> None | Some n' \<Rightarrow>
      case varchar 50 v of None \<Rightarrow> None | Some v' \<Rightarrow>
      case varchar 255 c of None \<Rightarrow> None | Some c' \<Rightarrow>
        Some \<lparr>row_id = i', row_name = n', row_version = v', applied_at = t,
              checksum = c', metadata = md\<rparr>)"

definition insert_row ::
  "string \<Rightarrow> string \<Rightarrow> string \<Rightarrow> string \<Rightarrow> string \<times> string list \<Rightarrow> 's world
     \<Rightarrow> (error + unit) \<times> 's world" where
  "insert_row i n v c md w =
     (case issue (InsertRow i n v c md) w of (ok, w1) \<Rightarrow>
        (case ledger w1 of
           Some rows \<Rightarrow>
             (case new_row i n v c md (clock w1) of
                Some row \<Rightarrow>
                  if ok \<and> row_id row \<notin> row_id ` set rows
                  then (Inr (), w1\<lparr>ledger := Some (rows @ [row]), clock := Suc (clock w1)\<rparr>)
                  else (Inl (QueryError (InsertRow i n v c md)), w1)
              | None \<Rightarrow> (Inl (QueryError (InsertRow i n v c md)), w1))
         | None \<Rightarrow> (Inl (QueryError (InsertRow i n v c md)), w1)))"

definition delete_row :: "string \<Rightarrow> 's world \<Rightarrow> (error + unit) \<times> 's world" where
  "delete_row i w =
     (case issue (DeleteRow i) w of (ok, w1) \<Rightarrow>
        (case ledger w1 of
           Some rows \<Rightarrow>
             if ok then (Inr (), w1\<lparr>ledger := Some (filter (\<lambda>r. row_id r \<noteq> i) rows)\<rparr>)
             else (Inl (QueryError (DeleteRow i)), w1)
         | None \<Rightarrow> (Inl (QueryError (DeleteRow i)), w1)))"

text \<open>
  The methods of \<open>Migration\<close>. \<open>validate_try\<close> is the body of the \<open>try\<close> block of \<open>validate\<close>,
  \<open>batch_try\<close> the one of \<open>executeBatch\<close>; in \<open>executeBatch\<close> an error of \<open>ROLLBACK\<close> in the
  \<open>catch\<close> block takes the place of the error that was caught, and the client is released
  on every path past \<open>connect\<close>. \<open>up\<close> and \<open>down\<close> are one \<open>executeBatch\<close> of the statements of
  the unit.
\<close>

definition validate_try :: "Migration \<Rightarrow> 's world \<Rightarrow> (error + bool) \<times> 's world" where
  "validate_try m w =
     (case table_exists w of
        (Inl e, w1) \<Rightarrow> (Inl e, w1)
      | (Inr tableExists, w1) \<Rightarrow>
          (case (if \<not> tableExists then create_table w1 else (Inr (), w1)) of
             (Inl e, w2) \<Rightarrow> (Inl e, w2)
           | (Inr _, w2) \<Rightarrow>
               (case select_row (id' (meta m)) w2 of
                  (Inl e, w3) \<Rightarrow> (Inl e, w3)
                | (Inr rows, w3) \<Rightarrow> (Inr (length rows = 0), w3))))"

definition validate :: "Migration \<Rightarrow> 's world \<Rightarrow> bool \<times> 's world" where
  "validate m w =
     (case validate_try m (emit (Invoke Validate m) w) of
        (Inr b, w') \<Rightarrow> (b, w')
      | (Inl e, w') \<Rightarrow> (False, emit (ConsoleError ''Migration validation failed:'' e) w'))"

fun run_queries ::
  "(string \<Rightarrow> 's \<Rightarrow> 's option) \<Rightarrow> string list \<Rightarrow> 's world \<Rightarrow> (error + unit) \<times> 's world" where
  "run_queries sem [] w = (Inr (), w)"
| "run_queries sem (query # queries) w =
     (case statement sem query w of
        (Inl e, w1) \<Rightarrow> (Inl e, w1)
      | (Inr _, w1) \<Rightarrow> run_queries sem queries w1)"

definition batch_try ::
  "(string \<Rightarrow> 's \<Rightarrow> 's option) \<Rightarrow> string list \<Rightarrow> 's world \<Rightarrow> (error + unit) \<times> 's world" where
  "batch_try sem queries w =
     (case begin_tx w of
        (Inl e, w1) \<Rightarrow> (Inl e, w1)
      | (Inr _, w1) \<Rightarrow>
          (case run_queries sem queries w1 of
             (Inl e, w2) \<Rightarrow> (Inl e, w2)
           | (Inr _, w2) \<Rightarrow> commit_tx w2))"

definition executeBatch ::
  "(string \<Rightarrow> 's \<Rightarrow> 's option) \<Rightarrow> string list \<Rightarrow> 's world \<Rightarrow> (error + unit) \<times> 's world" where
  "executeBatch sem queries w =
     (case connect w of
        (Inl e, w0) \<Rightarrow> (Inl e, w0)
      | (Inr _, w0) \<Rightarrow>
          (case batch_try sem queries w0 of
             (Inr _, w1) \<Rightarrow> (Inr (), release w1)
           | (Inl e, w1) \<Rightarrow>
               (case rollback_tx w1 of
                  (Inl e', w2) \<Rightarrow> (Inl e', release w2)
                | (Inr _, w2) \<Rightarrow> (Inl e, release w2))))"

definition up ::
  "(string \<Rightarrow> 's \<Rightarrow> 's option) \<Rightarrow> Migration \<Rightarrow> 's world \<Rightarrow> (error + unit) \<times> 's world" where
  "up sem m w = executeBatch sem (up_queries m) (emit (Invoke Up m) w)"

definition down ::
  "(string \<Rightarrow> 's \<Rightarrow> 's option) \<Rightarrow> Migration \<Rightarrow> 's world \<Rightarrow> (error + unit) \<times> 's world" where
  "down sem m w = executeBatch sem (down_queries m) (emit (Invoke Down m) w)"

definition recordMigration :: "Migration \<Rightarrow> string \<Rightarrow> 's world \<Rightarrow> (error + unit) \<times> 's world" where
  "recordMigration m cs w =
     insert_row (id' (meta m)) (name (meta m)) (version (meta m)) cs
       (description (meta m), (case dependencies (meta m) of None \<Rightarrow> [] | Some ds \<Rightarrow> ds))
       (emit (Invoke RecordMigration m) w)"

definition removeMigrationRecord :: "Migration \<Rightarrow> 's world \<Rightarrow> (error + unit) \<times> 's world" where
  "removeMigrationRecord m w =
     delete_row (id' (meta m)) (emit (Invoke RemoveMigrationRecord m) w)"

section \<open>The checksum\<close>

text \<open>
  \<open>generateChecksum\<close> is the SHA-256 digest, in lower-case hexadecimal, of the JSON text of the
  object with the fields \<open>id\<close>, \<open>name\<close>, \<open>version\<close> and \<open>description\<close>, in this order. The
  digest is computed on 32-bit words: the padding of the message, the message schedule and
  the 64 rounds of the compression function for every block of 16 words.
\<close>

type_synonym w32 = "32 word"

type_synonym hash_state = "w32 \<times> w32 \<times> w32 \<times> w32 \<times> w32 \<times> w32 \<times> w32 \<times> w32"

definition K256 :: "w32 list" where
  "K256 = concat
    [[0x428a2f98, 0x71374491, 0xb5c0fbcf, 0xe9b5dba5, 0x3956c25b, 0x59f111f1, 0x923f82a4, 0xab1c5ed5],
     [0xd807aa98, 0x12835b01, 0x243185be, 0x550c7dc3, 0x72be5d74, 0x80deb1fe, 0x9bdc06a7, 0xc19bf174],
     [0xe49b69c1, 0xefbe4786, 0x0fc19dc6, 0x240ca1cc, 0x2de92c6f, 0x4a7484aa, 0x5cb0a9dc, 0x76f988da],
     [0x983e5152, 0xa831c66d, 0xb00327c8, 0xbf597fc7, 0xc6e00bf3, 0xd5a79147, 0x06ca6351, 0x14292967],
     [0x27b70a85, 0x2e1b2138, 0x4d2c6dfc, 0x53380d13, 0x650a7354, 0x766a0abb, 0x81c2c92e, 0x92722c85],
     [0xa2bfe8a1, 0xa81a664b, 0xc24b8b70, 0xc76c51a3, 0xd192e819, 0xd6990624, 0xf40e3585, 0x106aa070],
     [0x19a4c116, 0x1e376c08, 0x2748774c, 0x34b0bcb5, 0x391c0cb3, 0x4ed8aa4a, 0x5b9cca4f, 0x682e6ff3],
     [0x748f82ee, 0x78a5636f, 0x84c87814, 0x8cc70208, 0x90befffa, 0xa4506ceb, 0xbef9a3f7, 0xc67178f2]]"

definition H256 :: hash_state where
  "H256 = (0x6a09e667, 0xbb67ae85, 0x3c6ef372, 0xa54ff53a,
           0x510e527f, 0x9b05688c, 0x1f83d9ab, 0x5be0cd19)"

definition rotr :: "nat \<Rightarrow> w32 \<Rightarrow> w32" where
  "rotr n x = drop_bit n x OR push_bit (32 - n) x"

definition Ch :: "w32 \<Rightarrow> w32 \<Rightarrow> w32 \<Rightarrow> w32" where
  "Ch x y z = (x AND y) XOR (NOT x AND z)"

definition Maj :: "w32 \<Rightarrow> w32 \<Rightarrow> w32 \<Rightarrow> w32" where
  "Maj x y z = (x AND y) XOR (x AND z) XOR (y AND z)"

definition Sigma0 :: "w32 \<Rightarrow> w32" where
  "Sigma0 x = rotr 2 x XOR rotr 13 x XOR rotr 22 x"

definition Sigma1 :: "w32 \<Rightarrow> w32" where
  "Sigma1 x = rotr 6 x XOR rotr 11 x XOR rotr 25 x"

definition sigma0 :: "w32 \<Rightarrow> w32" where
  "sigma0 x = rotr 7 x XOR rotr 18 x XOR drop_bit 3 x"

definition sigma1 :: "w32 \<Rightarrow> w32" where
  "sigma1 x = rotr 17 x XOR rotr 19 x XOR drop_bit 10 x"

definition sha_pad :: "string \<Rightarrow> w32 list" where
  "sha_pad bytes =
     map of_char bytes @ [0x80]
     @ replicate ((64 - (length bytes + 9) mod 64) mod 64) 0
     @ map (\<lambda>i. of_nat ((8 * length bytes) div 2 ^ (8 * i) mod 256)) [7, 6, 5, 4, 3, 2, 1, 0]"

fun be_words :: "w32 list \<Rightarrow> w32 list" where
  "be_words (a # b # c # d # rest) =
     (push_bit 24 a OR push_bit 16 b OR push_bit 8 c OR d) # be_words rest"
| "be_words _ = []"

fun schedule :: "nat \<Rightarrow> w32 list \<Rightarrow> w32 list" where
  "schedule 0 ws = ws"
| "schedule (Suc n) ws =
     schedule n
       (ws @ [sigma1 (ws ! (length ws - 2)) + ws ! (length ws - 7)
              + sigma0 (ws ! (length ws - 15)) + ws ! (length ws - 16)])"

fun sha_round :: "hash_state \<Rightarrow> w32 \<times> w32 \<Rightarrow> hash_state" where
  "sha_round (a, b, c, d, e, f, g, h) (k, w) =
     (h + Sigma1 e + Ch e f g + k + w + (Sigma0 a + Maj a b c),
      a, b, c,
      d + (h + Sigma1 e + Ch e f g + k + w),
      e, f, g)"

fun add_state :: "hash_state \<Rightarrow> hash_state \<Rightarrow> hash_state" where
  "add_state (a, b, c, d, e, f, g, h) (a', b', c', d', e', f', g', h') =
     (a + a', b + b', c + c', d + d', e + e', f + f', g + g', h + h')"

definition sha_block :: "hash_state \<Rightarrow> w32 list \<Rightarrow> hash_state" where
  "sha_block hs block = add_state hs (foldl sha_round hs (zip K256 (schedule 48 block)))"

fun sha_blocks :: "hash_state \<Rightarrow> w32 list \<Rightarrow> hash_state" where
  "sha_blocks hs ws =
     (if length ws < 16 then hs
      else sha_blocks (sha_block hs (take 16 ws)) (drop 16 ws))"

declare sha_blocks.simps [simp del]

definition sha256 :: "string \<Rightarrow> hash_state" where
  "sha256 bytes = sha_blocks H256 (be_words (sha_pad bytes))"

definition hex_digit :: "nat \<Rightarrow> char" where
  "hex_digit n = (if n < 10 then char_of (48 + n) else char_of (87 + n))"

definition hex_word :: "w32 \<Rightarrow> string" where
  "hex_word x = map (\<lambda>i. hex_digit (unat (drop_bit (4 * i) x AND 15))) [7, 6, 5, 4, 3, 2, 1, 0]"

fun hex_digest :: "hash_state \<Rightarrow> string" where
  "hex_digest (a, b, c, d, e, f, g, h) =
     hex_word a @ hex_word b @ hex_word c @ hex_word d
     @ hex_word e @ hex_word f @ hex_word g @ hex_word h"

text \<open>
  \<open>JSON_stringify\<close> writes the four fields as JSON strings: \<open>quote\<close> escapes the quotation
  mark, the backslash and the control characters below \<open>0x20\<close> and leaves every other byte as
  it is. \<open>unescape\<close> reads an escaped string back; it is used to show that \<open>quote\<close> is
  injective.
\<close>

definition escape_char :: "char \<Rightarrow> string" where
  "escape_char c =
     (if c = CHR 0x22 then [CHR 0x5C, CHR 0x22]
      else if c = CHR 0x5C then [CHR 0x5C, CHR 0x5C]
      else if c = CHR 0x08 then [CHR 0x5C, CHR ''b'']
      else if c = CHR 0x0C then [CHR 0x5C, CHR ''f'']
      else if c = CHR 0x0A then [CHR 0x5C, CHR ''n'']
      else if c = CHR 0x0D then [CHR 0x5C, CHR ''r'']
      else if c = CHR 0x09 then [CHR 0x5C, CHR ''t'']
      else if (of_char c :: nat) < 32 then
        [CHR 0x5C, CHR ''u'', CHR ''0'', CHR ''0'',
         hex_digit ((of_char c :: nat) div 16), hex_digit ((of_char c :: nat) mod 16)]
      else [c])"

definition quote :: "string \<Rightarrow> string" where
  "quote s = [CHR 0x22] @ concat (map escape_char s) @ [CHR 0x22]"

definition JSON_stringify :: "MigrationMeta \<Rightarrow> string" where
  "JSON_stringify mt =
     ''{'' @ quote ''id'' @ '':'' @ quote (id' mt)
     @ '','' @ quote ''name'' @ '':'' @ quote (name mt)
     @ '','' @ quote ''version'' @ '':'' @ quote (version mt)
     @ '','' @ quote ''description'' @ '':'' @ quote (description mt)
     @ ''}''"

definition generateChecksum :: "Migration \<Rightarrow> string" where
  "generateChecksum m = hex_digest (sha256 (JSON_stringify (meta m)))"

definition hexval :: "char \<Rightarrow> nat" where
  "hexval c = (if (of_char c :: nat) \<le> 57 then of_char c - 48 else of_char c - 87)"

fun unescape :: "string \<Rightarrow> string" where
  "unescape [] = []"
| "unescape [c] = [c]"
| "unescape (c # d # cs) =
     (if c \<noteq> CHR 0x5C then c # unescape (d # cs)
      else if d = CHR ''u'' then
        (case cs of
           z1 # z2 # h1 # h2 # rest \<Rightarrow> char_of (16 * hexval h1 + hexval h2) # unescape rest
         | _ \<Rightarrow> [])
      else (if d = CHR ''b'' then CHR 0x08
            else if d = CHR ''f'' then CHR 0x0C
            else if d = CHR ''n'' then CHR 0x0A
            else if d = CHR ''r'' then CHR 0x0D
            else if d = CHR ''t'' then CHR 0x09
            else d) # unescape cs)"

section \<open>The migration manager\<close>

text \<open>
  \<open>apply_one\<close> is the body of the loop of \<open>applyMigrations\<close> and \<open>apply_loop\<close> the loop, which
  ends at the first error. \<open>rollbackMigration\<close> takes the first unit of the list with the
  version asked for. In \<open>loadMigrations\<close> the listing of the directory (\<open>readdir\<close>, which may
  fail) and the import of a file (\<open>load\<close>, which may fail) are parameters; the units are
  appended to the list in the order of the listing, and the list is sorted at the end.
\<close>

definition apply_one ::
  "(string \<Rightarrow> 's \<Rightarrow> 's option) \<Rightarrow> Migration \<Rightarrow> 's world \<Rightarrow> (error + unit) \<times> 's world" where
  "apply_one sem m w =
     (case validate m w of (canApply, w1) \<Rightarrow>
        if canApply then
          (case up sem m
                  (emit (ConsoleLog (''Applying migration: '' @ name (meta m) @ '' (''
                                       @ version (meta m) @ '')'')) w1) of
             (Inl e, w2) \<Rightarrow>
               (Inl e, emit (ConsoleError (''Failed to apply migration '' @ name (meta m) @ '':'') e) w2)
           | (Inr _, w2) \<Rightarrow>
               (case recordMigration m (generateChecksum m) w2 of
                  (Inl e, w3) \<Rightarrow>
                    (Inl e,
                     emit (ConsoleError (''Failed to apply migration '' @ name (meta m) @ '':'') e) w3)
                | (Inr _, w3) \<Rightarrow>
                    (Inr (),
                     emit (ConsoleLog (''Successfully applied migration: '' @ name (meta m))) w3)))
        else (Inr (), w1))"

fun apply_loop ::
  "(string \<Rightarrow> 's \<Rightarrow> 's option) \<Rightarrow> Migration list \<Rightarrow> 's world \<Rightarrow> (error + unit) \<times> 's world" where
  "apply_loop sem [] w = (Inr (), w)"
| "apply_loop sem (m # ms) w =
     (case apply_one sem m w of
        (Inl e, w') \<Rightarrow> (Inl e, w')
      | (Inr _, w') \<Rightarrow> apply_loop sem ms w')"

definition applyMigrations ::
  "(string \<Rightarrow> 's \<Rightarrow> 's option) \<Rightarrow> MigrationManager \<Rightarrow> 's world \<Rightarrow> (error + unit) \<times> 's world" where
  "applyMigrations sem mgr w = apply_loop sem (migrations mgr) w"

definition rollbackMigration ::
  "(string \<Rightarrow> 's \<Rightarrow> 's option) \<Rightarrow> MigrationManager \<Rightarrow> string \<Rightarrow> 's world
     \<Rightarrow> (error + unit) \<times> 's world" where
  "rollbackMigration sem mgr v w =
     (case find (\<lambda>m. version (meta m) = v) (migrations mgr) of
        None \<Rightarrow> (Inl (Error (''Migration version '' @ v @ '' not found'')), w)
      | Some m \<Rightarrow>
          (case down sem m
                  (emit (ConsoleLog (''Rolling back migration: '' @ name (meta m) @ '' ('' @ v @ '')'')) w) of
             (Inl e, w1) \<Rightarrow>
               (Inl e, emit (ConsoleError (''Failed to rollback migration '' @ v @ '':'') e) w1)
           | (Inr _, w1) \<Rightarrow>
               (case removeMigrationRecord m w1 of
                  (Inl e, w2) \<Rightarrow>
                    (Inl e, emit (ConsoleError (''Failed to rollback migration '' @ v @ '':'') e) w2)
                | (Inr _, w2) \<Rightarrow>
                    (Inr (),
                     emit (ConsoleLog (''Successfully rolled back migration: '' @ name (meta m))) w2))))"

definition endsWith :: "string \<Rightarrow> string \<Rightarrow> bool" where
  "endsWith s searchString =
     (length searchString \<le> length s \<and>
      drop (length s - length searchString) s = searchString)"

fun import_all ::
  "(string \<Rightarrow> error + Migration) \<Rightarrow> string list \<Rightarrow> Migration list
     \<Rightarrow> (error + unit) \<times> Migration list" where
  "import_all load [] ms = (Inr (), ms)"
| "import_all load (file # files) ms =
     (case load file of
        Inl e \<Rightarrow> (Inl e, ms)
      | Inr migration \<Rightarrow> import_all load files (ms @ [migration]))"

definition loadMigrations ::
  "(error + string list) \<Rightarrow> (string \<Rightarrow> error + Migration) \<Rightarrow> MigrationManager \<Rightarrow> 's world
     \<Rightarrow> (error + unit) \<times> MigrationManager \<times> 's world" where
  "loadMigrations readdir load mgr w =
     (case readdir of
        Inl e \<Rightarrow> (Inl e, mgr, emit (ConsoleError ''Failed to load migrations:'' e) w)
      | Inr files \<Rightarrow>
          (case import_all load
                  (filter (\<lambda>f. endsWith f ''.ts'' \<or> endsWith f ''.js'') files)
                  (migrations mgr) of
             (Inl e, ms) \<Rightarrow>
               (Inl e, mgr\<lparr>migrations := ms\<rparr>,
                emit (ConsoleError ''Failed to load migrations:'' e) w)
           | (Inr _, ms) \<Rightarrow>
               (Inr (),
                mgr\<lparr>migrations :=
                      Array_sort (\<lambda>a b. compareVersions (version (meta a)) (version (meta b))) ms\<rparr>,
                w)))"

text \<open>
  Readings of a trace: the methods invoked, with their units, in order (\<open>invocations\<close>), the
  units one method was invoked on (\<open>invoked\<close>), the calls sent to the database
  (\<open>queries_of\<close>) and the errors written to the console (\<open>console_errors\<close>).
  \<open>ledger_read\<close> holds of the calls that read the ledger. \<open>effects\<close> is the state after a list
  of statements, \<open>None\<close> when one of them is rejected, and \<open>failing_statement\<close> the first one
  that is. \<open>session\<close> is the state a statement of the client sees: the state of the open
  transaction, or the schema when none is open. \<open>recorded\<close> is the set of the ids in the
  ledger, and \<open>entered m\<close> says that the ledger has a row for the unit \<open>m\<close>, under its id or
  under its id cut to the 255 characters of the column. \<open>batch_trace w w'\<close> says that from
  \<open>w\<close> to \<open>w'\<close> only calls were recorded and none of them reads the ledger, and \<open>undisturbed\<close>
  that no coming call is rejected by a fault.
\<close>

fun invoked :: "unit_method \<Rightarrow> event list \<Rightarrow> Migration list" where
  "invoked mth [] = []"
| "invoked mth (Invoke mth' m # es) =
     (if mth' = mth then m # invoked mth es else invoked mth es)"
| "invoked mth (_ # es) = invoked mth es"

fun invocations :: "event list \<Rightarrow> (unit_method \<times> Migration) list" where
  "invocations [] = []"
| "invocations (Invoke mth m # es) = (mth, m) # invocations es"
| "invocations (_ # es) = invocations es"

fun queries_of :: "event list \<Rightarrow> db_call list" where
  "queries_of [] = []"
| "queries_of (Query c # es) = c # queries_of es"
| "queries_of (_ # es) = queries_of es"

fun console_errors :: "event list \<Rightarrow> (string \<times> error) list" where
  "console_errors [] = []"
| "console_errors (ConsoleError msg e # es) = (msg, e) # console_errors es"
| "console_errors (_ # es) = console_errors es"

fun ledger_read :: "db_call \<Rightarrow> bool" where
  "ledger_read TableExists = True"
| "ledger_read (SelectRow i) = True"
| "ledger_read _ = False"

fun effects :: "(string \<Rightarrow> 's \<Rightarrow> 's option) \<Rightarrow> string list \<Rightarrow> 's \<Rightarrow> 's option" where
  "effects sem [] s = Some s"
| "effects sem (q # qs) s = (case sem q s of None \<Rightarrow> None | Some s' \<Rightarrow> effects sem qs s')"

fun failing_statement ::
  "(string \<Rightarrow> 's \<Rightarrow> 's option) \<Rightarrow> string list \<Rightarrow> 's \<Rightarrow> string option" where
  "failing_statement sem [] s = None"
| "failing_statement sem (q # qs) s =
     (case sem q s of None \<Rightarrow> Some q | Some s' \<Rightarrow> failing_statement sem qs s')"

definition session :: "'s world \<Rightarrow> 's" where
  "session w = (case transaction w of None \<Rightarrow> schema w | Some t \<Rightarrow> t)"

definition recorded :: "'s world \<Rightarrow> string set" where
  "recorded w = (case ledger w of None \<Rightarrow> {} | Some rows \<Rightarrow> row_id ` set rows)"

definition entered :: "Migration \<Rightarrow> 's world \<Rightarrow> bool" where
  "entered m w =
     (id' (meta m) \<in> recorded w \<or> take_chars 255 (id' (meta m)) \<in> recorded w)"

definition batch_trace :: "'s world \<Rightarrow> 's world \<Rightarrow> bool" where
  "batch_trace w w' = (\<exists>cs. trace w' = trace w @ map Query cs \<and> (\<forall>c\<in>set cs. \<not> ledger_read c))"

definition undisturbed :: "'s world \<Rightarrow> bool" where
  "undisturbed w = (True \<notin> set (faults w))"

section \<open>Example units and databases\<close>

text \<open>
  A database whose schema is a list of table names, with statements that create and drop a
  table, and units on it. The second statement of \<open>unit_b\<close> creates the table of \<open>unit_a\<close> and
  is rejected once \<open>unit_a\<close> is applied; \<open>unit_b2\<close> has the name and the statements of \<open>unit_b\<close>
  and another id and version; \<open>unit_a2\<close> has the version of \<open>unit_a\<close>. The id of \<open>unit_long\<close> has
  256 characters, the last one a space. The versions of \<open>unit_x\<close> and \<open>unit_y\<close> are
  \<open>2 ^ 53 + 1\<close> and \<open>2 ^ 53\<close>. \<open>versions_dir\<close> and \<open>large_dir\<close> are two directories of units,
  given by what the import of a file returns.
\<close>

definition table_sem :: "string \<Rightarrow> string list \<Rightarrow> string list option" where
  "table_sem q tables =
     (if take 7 q = ''CREATE '' then
        (if drop 7 q \<in> set tables then None else Some (tables @ [drop 7 q]))
      else if take 5 q = ''DROP '' then
        (if drop 5 q \<in> set tables then Some (removeAll (drop 5 q) tables) else None)
      else None)"

definition unit_a :: Migration where
  "unit_a =
     \<lparr>meta = \<lparr>id' = ''a'', name = ''A'', description = ''first'', version = ''1.0.0'',
              dependencies = None\<rparr>,
      up_queries = [''CREATE t1''], down_queries = [''DROP t1'']\<rparr>"

definition unit_b :: Migration where
  "unit_b =
     \<lparr>meta = \<lparr>id' = ''b'', name = ''B'', description = ''second'', version = ''1.1.0'',
              dependencies = Some [''a'']\<rparr>,
      up_queries = [''CREATE t2'', ''CREATE t1''], down_queries = [''DROP t2'']\<rparr>"

definition unit_c :: Migration where
  "unit_c =
     \<lparr>meta = \<lparr>id' = ''c'', name = ''C'', description = ''third'', version = ''1.2.0'',
              dependencies = None\<rparr>,
      up_queries = [''CREATE t3''], down_queries = [''DROP t3'']\<rparr>"

definition unit_a2 :: Migration where
  "unit_a2 =
     \<lparr>meta = \<lparr>id' = ''a2'', name = ''A2'', description = ''same version as A'', version = ''1.0.0'',
              dependencies = None\<rparr>,
      up_queries = [''CREATE t4''], down_queries = [''DROP t4'']\<rparr>"

definition unit_b2 :: Migration where
  "unit_b2 =
     \<lparr>meta = \<lparr>id' = ''b2'', name = ''B'', description = ''second, once more'', version = ''1.1.1'',
              dependencies = None\<rparr>,
      up_queries = [''CREATE t2'', ''CREATE t1''], down_queries = [''DROP t2'']\<rparr>"

definition cut_id :: string where
  "cut_id = replicate 255 (CHR ''x'')"

definition long_id :: string where
  "long_id = cut_id @ '' ''"

definition unit_long :: Migration where
  "unit_long =
     \<lparr>meta = \<lparr>id' = long_id, name = ''L'', description = ''a long id'', version = ''2.0.0'',
              dependencies = None\<rparr>,
      up_queries = [''CREATE t5''], down_queries = [''DROP t5'']\<rparr>"

definition fresh :: "string list world" where
  "fresh = \<lparr>schema = [], transaction = None, ledger = None, clock = 0, faults = [], trace = []\<rparr>"

definition versions_dir :: "string \<Rightarrow> error + Migration" where
  "versions_dir file =
     (if file = ''001_a.ts'' then Inr unit_a
      else if file = ''002_b.ts'' then Inr unit_b
      else if file = ''003_c.js'' then Inr unit_c
      else Inl (Error ''Cannot find module''))"

definition unit_x :: Migration where
  "unit_x =
     \<lparr>meta = \<lparr>id' = ''x'', name = ''X'', description = ''the later version'',
              version = ''9007199254740993'', dependencies = None\<rparr>,
      up_queries = [''CREATE t6''], down_queries = [''DROP t6'']\<rparr>"

definition unit_y :: Migration where
  "unit_y =
     \<lparr>meta = \<lparr>id' = ''y'', name = ''Y'', description = ''the earlier version'',
              version = ''9007199254740992'', dependencies = None\<rparr>,
      up_queries = [''CREATE t7''], down_queries = [''DROP t7'']\<rparr>"

definition large_dir :: "string \<Rightarrow> error + Migration" where
  "large_dir file =
     (if file = ''001_x.ts'' then Inr unit_x
      else if file = ''002_y.ts'' then Inr unit_y
      else Inl (Error ''Cannot find module''))"

definition row_of :: "Migration \<Rightarrow> nat \<Rightarrow> LedgerRow" where
  "row_of m t =
     \<lparr>row_id = id' (meta m), row_name = name (meta m), row_version = version (meta m),
      applied_at = t, checksum = generateChecksum m,
      metadata = (description (meta m),
                  (case dependencies (meta m) of None \<Rightarrow> [] | Some ds \<Rightarrow> ds))\<rparr>"

definition applied_a_b :: "string list world" where
  "applied_a_b =
     \<lparr>schema = [''t1'', ''t2''], transaction = None,
      ledger = Some [row_of unit_a 0, row_of unit_b 1], clock = 2, faults = [], trace = []\<rparr>"

definition applied_a_a2 :: "string list world" where
  "applied_a_a2 =
     \<lparr>schema = [''t1'', ''t4''], transaction = None,
      ledger = Some [row_of unit_a 0, row_of unit_a2 1], clock = 2, faults = [], trace = []\<rparr>"

definition after_a :: "string list world" where
  "after_a = snd (apply_loop table_sem [unit_a] fresh)"

definition b_validated :: "string list world" where
  "b_validated = snd (validate unit_b after_a)"

definition b_failed :: "string list world" where
  "b_failed = snd (up table_sem unit_b (emit (ConsoleLog ''Applying migration: B (1.1.0)'') b_validated))"

definition after_a_c :: "string list world" where
  "after_a_c = snd (applyMigrations table_sem \<lparr>migrations = [unit_a, unit_c]\<rparr> fresh)"

definition a_recorded :: "string list world" where
  "a_recorded = fresh\<lparr>ledger := Some [row_of unit_a 0], clock := 1\<rparr>"

section \<open>Properties of the model\<close>

subsection \<open>The comparator is a total preorder\<close>

lemma bit_length_le: "n < 2 ^ k \<Longrightarrow> bit_length n \<le> k"
proof (induction n arbitrary: k rule: bit_length.induct)
  case (1 n)
  show ?case
  proof (cases "n = 0")
    case True
    then show ?thesis by (simp add: bit_length.simps)
  next
    case False
    then obtain k' where k: "k = Suc k'"
      using "1.prems" by (cases k) auto
    have "n div 2 < 2 ^ k'"
      using "1.prems" k by auto
    then have "bit_length (n div 2) \<le> k'"
      using "1.IH" False by blast
    then show ?thesis
      using False k by (subst bit_length.simps) simp
  qed
qed

lemma bit_length_lower: "0 < n \<Longrightarrow> 2 ^ (bit_length n - 1) \<le> n"
proof (induction n rule: bit_length.induct)
  case (1 n)
  show ?case
  proof (cases "n div 2 = 0")
    case True
    then have "bit_length (n div 2) = 0"
      by (simp add: bit_length.simps)
    then have "bit_length n = 1"
      using "1.prems" by (subst bit_length.simps) simp
    then show ?thesis using "1.prems" by simp
  next
    case False
    then have ih: "2 ^ (bit_length (n div 2) - 1) \<le> n div 2"
      using "1.IH" "1.prems" by simp
    have pos: "0 < bit_length (n div 2)"
      using False by (subst bit_length.simps) simp
    have bl: "bit_length n = Suc (bit_length (n div 2))"
      using "1.prems" by (subst bit_length.simps) simp
    have "2 ^ (bit_length n - 1) = 2 * 2 ^ (bit_length (n div 2) - 1)"
      using bl pos by (cases "bit_length (n div 2)") simp_all
    also have "\<dots> \<le> 2 * (n div 2)"
      using ih by simp
    also have "\<dots> \<le> n"
      by simp
    finally show ?thesis .
  qed
qed

lemma round53_small: "n < 2 ^ 53 \<Longrightarrow> round53 n = n"
  by (simp add: round53_def)

lemma round53_pos: "0 < n \<Longrightarrow> 0 < round53 n"
proof (cases "n < 2 ^ 53")
  case True
  assume "0 < n"
  then show ?thesis using True by (simp add: round53_small)
next
  case False
  assume pos: "0 < n"
  define e where "e = bit_length n - 53"
  have "2 ^ (bit_length n - 1) \<le> n"
    using pos by (rule bit_length_lower)
  moreover have "(2::nat) ^ e \<le> 2 ^ (bit_length n - 1)"
    unfolding e_def by (rule power_increasing) auto
  ultimately have "2 ^ e \<le> n"
    by linarith
  then have q: "0 < n div 2 ^ e"
    by (simp add: div_greater_zero_iff)
  show ?thesis
    using False q unfolding round53_def Let_def e_def [symmetric]
    by auto
qed

lemma toDouble_exact: "\<bar>x\<bar> < 2 ^ 53 \<Longrightarrow> toDouble x = Num x"
proof -
  assume a: "\<bar>x\<bar> < 2 ^ 53"
  then have n: "nat \<bar>x\<bar> < 2 ^ 53"
    by (simp add: nat_less_iff)
  then have r: "round53 (nat \<bar>x\<bar>) = nat \<bar>x\<bar>"
    by (rule round53_small)
  have "bit_length (nat \<bar>x\<bar>) \<le> 53"
    using n by (rule bit_length_le)
  then have "\<not> 1024 < bit_length (nat \<bar>x\<bar>)"
    by simp
  moreover have "sgn x * int (nat \<bar>x\<bar>) = x"
    by (simp add: sgn_if)
  ultimately show ?thesis
    by (simp add: toDouble_def r)
qed

lemma toDouble_sign:
  "js_gt0 (toDouble x) = (0 < x)"
proof (cases "x = 0")
  case True
  then show ?thesis
    by (simp add: toDouble_exact js_gt0_def)
next
  case False
  then have "0 < nat \<bar>x\<bar>" by simp
  then have "0 < round53 (nat \<bar>x\<bar>)" by (rule round53_pos)
  then show ?thesis
    using False by (auto simp: toDouble_def js_gt0_def Let_def sgn_if)
qed

lemma lexle_first_difference:
  assumes "\<forall>j<k. f j = g j" and "f k \<noteq> g k"
  shows "lexle f g = (f k < g k)"
proof
  assume "lexle f g"
  then obtain k' where pre: "\<forall>j<k'. f j = g j" and lt: "f k' < g k'"
    using assms(2) unfolding lexle_def by blast
  have "\<not> k' < k" using assms(1) lt by auto
  moreover have "\<not> k < k'" using pre assms(2) by auto
  ultimately have "k' = k" by simp
  then show "f k < g k" using lt by simp
next
  assume "f k < g k"
  then show "lexle f g" unfolding lexle_def using assms(1) by blast
qed

lemma first_difference:
  assumes "\<not> (\<forall>i. f i = g i)"
  obtains k :: nat where "\<forall>j<k. f j = g j" and "f k \<noteq> g k"
proof -
  define k where "k = (LEAST i. f i \<noteq> g i)"
  have ex: "\<exists>i. f i \<noteq> g i" using assms by blast
  have "f k \<noteq> g k" unfolding k_def using ex by (rule LeastI_ex)
  moreover have "\<forall>j<k. f j = g j"
    unfolding k_def using not_less_Least by blast
  ultimately show thesis using that by blast
qed

lemma lexle_total: "lexle f g \<or> lexle g f"
proof (cases "\<forall>i. f i = g i")
  case True
  then show ?thesis by (simp add: lexle_def)
next
  case False
  then obtain k where pre: "\<forall>j<k. f j = g j" and ne: "f k \<noteq> g k"
    by (rule first_difference)
  have "lexle f g = (f k < g k)"
    using pre ne by (rule lexle_first_difference)
  moreover have "lexle g f = (g k < f k)"
    using pre ne by (intro lexle_first_difference) auto
  ultimately show ?thesis using ne by auto
qed

lemma lexle_trans:
  assumes "lexle f g" and "lexle g h"
  shows "lexle f h"
proof (cases "\<forall>i. f i = g i")
  case True
  then have "f = g" by (simp add: fun_eq_iff)
  then show ?thesis using assms(2) by simp
next
  case fg: False
  show ?thesis
  proof (cases "\<forall>i. g i = h i")
    case True
    then have "g = h" by (simp add: fun_eq_iff)
    then show ?thesis using assms(1) by simp
  next
    case gh: False
    obtain k1 where p1: "\<forall>j<k1. f j = g j" and l1: "f k1 < g k1"
      using assms(1) fg unfolding lexle_def by blast
    obtain k2 where p2: "\<forall>j<k2. g j = h j" and l2: "g k2 < h k2"
      using assms(2) gh unfolding lexle_def by blast
    consider "k1 < k2" | "k1 = k2" | "k2 < k1" by linarith
    then show ?thesis
    proof cases
      case 1
      have "\<forall>j<k1. f j = h j" using p1 p2 1 by auto
      moreover have "f k1 < h k1" using l1 p2 1 by auto
      ultimately show ?thesis unfolding lexle_def by blast
    next
      case 2
      have "\<forall>j<k1. f j = h j" using p1 p2 2 by auto
      moreover have "f k1 < h k1" using l1 l2 2 by auto
      ultimately show ?thesis unfolding lexle_def by blast
    next
      case 3
      have "\<forall>j<k2. f j = h j" using p1 p2 3 by auto
      moreover have "f k2 < h k2" using l2 p1 3 by auto
      ultimately show ?thesis unfolding lexle_def by blast
    qed
  qed
qed

lemma or0_not_NaN: "or0 v \<noteq> NaN"
  by (simp add: or0_def split: option.splits jsnum.splits)

lemma toDouble_nonneg: "0 \<le> x \<Longrightarrow> nonneg (toDouble x)"
  by (auto simp: toDouble_def nonneg_def Let_def sgn_if)

lemma Number_range: "Number s = NaN \<or> nonneg (Number s)"
  by (simp add: Number_def toDouble_nonneg)

lemma nonneg_segment: "nonneg (or0 (at_index (map Number ss) i))"
proof (cases "i < length ss")
  case True
  then show ?thesis
    using Number_range [of "ss ! i"]
    by (auto simp: or0_def at_index_def nonneg_def split: jsnum.splits)
next
  case False
  then show ?thesis by (simp add: or0_def at_index_def nonneg_def)
qed

lemma key_inj: "nonneg x \<Longrightarrow> nonneg y \<Longrightarrow> key x = key y \<Longrightarrow> x = y"
  by (auto simp: nonneg_def key_def split: jsnum.splits)

lemma js_sub_sign:
  "nonneg x \<Longrightarrow> nonneg y \<Longrightarrow> js_gt0 (js_sub x y) = (key y < key x)"
proof (cases x)
  case (Num a)
  assume x: "nonneg x" and y: "nonneg y"
  show ?thesis
  proof (cases y)
    case (Num b)
    then show ?thesis
      using x y \<open>x = Num a\<close> by (auto simp: toDouble_sign nonneg_def key_def)
  qed (use x y Num in \<open>simp_all add: nonneg_def key_def js_gt0_def\<close>)
qed (cases y; simp add: nonneg_def key_def js_gt0_def)+

lemma compare_from_equal:
  "(\<And>j. i \<le> j \<Longrightarrow> or0 (at_index pa j) = or0 (at_index pb j)) \<Longrightarrow>
   compare_from pa pb i = Num 0"
proof (induction "max (length pa) (length pb) - i" arbitrary: i)
  case 0
  then have "\<not> i < max (length pa) (length pb)" by linarith
  then show ?case by (subst compare_from.simps) simp
next
  case (Suc n)
  have eq: "or0 (at_index pa i) = or0 (at_index pb i)"
    using Suc.prems by simp
  have "compare_from pa pb (Suc i) = Num 0"
    using Suc.hyps Suc.prems by (intro Suc.hyps(1)) auto
  then show ?case
    using eq or0_not_NaN by (subst compare_from.simps) (simp add: strict_neq_def)
qed

lemma compare_from_first_difference:
  assumes "i \<le> k"
    and "\<And>j. i \<le> j \<Longrightarrow> j < k \<Longrightarrow> or0 (at_index pa j) = or0 (at_index pb j)"
    and "or0 (at_index pa k) \<noteq> or0 (at_index pb k)"
  shows "compare_from pa pb i = js_sub (or0 (at_index pa k)) (or0 (at_index pb k))"
  using assms
proof (induction "k - i" arbitrary: i)
  case 0
  then have ik: "i = k" by simp
  have "k < max (length pa) (length pb)"
  proof (rule ccontr)
    assume "\<not> k < max (length pa) (length pb)"
    then have "\<not> k < length pa" and "\<not> k < length pb" by linarith+
    then have "or0 (at_index pa k) = or0 (at_index pb k)"
      by (simp add: at_index_def)
    then show False using "0.prems"(3) by simp
  qed
  then show ?case
    using "0.prems"(3) ik by (subst compare_from.simps) (simp add: strict_neq_def)
next
  case (Suc n)
  then have lt: "i < k" by simp
  have eq: "or0 (at_index pa i) = or0 (at_index pb i)"
    using Suc.prems(2) lt by simp
  have rest: "compare_from pa pb (Suc i) = js_sub (or0 (at_index pa k)) (or0 (at_index pb k))"
    using Suc.hyps(2) lt Suc.prems by (intro Suc.hyps(1)) auto
  have "k < max (length pa) (length pb)"
  proof (rule ccontr)
    assume "\<not> k < max (length pa) (length pb)"
    then have "\<not> k < length pa" and "\<not> k < length pb" by linarith+
    then have "or0 (at_index pa k) = or0 (at_index pb k)"
      by (simp add: at_index_def)
    then show False using Suc.prems(3) by simp
  qed
  then have "i < max (length pa) (length pb)" using lt by simp
  then show ?case
    using eq rest or0_not_NaN by (subst compare_from.simps) (simp add: strict_neq_def)
qed

lemma not_after_lexle: "not_after a b = lexle (version_key a) (version_key b)"
proof (cases "\<forall>i. version_key a i = version_key b i")
  case True
  then have "\<And>j. or0 (at_index (map Number (split_dot a)) j) =
               or0 (at_index (map Number (split_dot b)) j)"
    by (auto simp: version_key_def intro: key_inj nonneg_segment)
  then have "compareVersions a b = Num 0"
    unfolding compareVersions_def by (intro compare_from_equal) simp
  then show ?thesis
    using True by (simp add: not_after_def js_gt0_def lexle_def)
next
  case False
  then obtain k where pre: "\<forall>j<k. version_key a j = version_key b j"
    and ne: "version_key a k \<noteq> version_key b k"
    by (rule first_difference)
  let ?A = "map Number (split_dot a)" and ?B = "map Number (split_dot b)"
  have pre': "\<And>j. j < k \<Longrightarrow> or0 (at_index ?A j) = or0 (at_index ?B j)"
    using pre by (auto simp: version_key_def intro: key_inj nonneg_segment)
  have ne': "or0 (at_index ?A k) \<noteq> or0 (at_index ?B k)"
    using ne by (auto simp: version_key_def)
  have "compareVersions a b = js_sub (or0 (at_index ?A k)) (or0 (at_index ?B k))"
    unfolding compareVersions_def
    using pre' ne' by (intro compare_from_first_difference) auto
  then have "js_gt0 (compareVersions a b) = (version_key b k < version_key a k)"
    by (simp add: js_sub_sign nonneg_segment version_key_def)
  moreover have "lexle (version_key a) (version_key b) = (version_key a k < version_key b k)"
    using pre ne by (rule lexle_first_difference)
  ultimately show ?thesis
    using ne by (auto simp: not_after_def)
qed

lemma not_after_total: "not_after a b \<or> not_after b a"
  by (simp add: not_after_lexle lexle_total)

lemma not_after_trans: "not_after a b \<Longrightarrow> not_after b c \<Longrightarrow> not_after a c"
  unfolding not_after_lexle by (rule lexle_trans)

subsection \<open>The sort of the unit list\<close>

lemma mset_insert_by: "mset (insert_by cmp x ys) = add_mset x (mset ys)"
  by (induction ys) simp_all

lemma set_insert_by: "set (insert_by cmp x ys) = insert x (set ys)"
  by (induction ys) auto

lemma mset_Array_sort: "mset (Array_sort cmp xs) = mset xs"
  unfolding Array_sort_def by (induction xs) (simp_all add: mset_insert_by)

lemma sorted_insert_by:
  assumes total: "\<And>a b. \<not> js_gt0 (cmp a b) \<or> \<not> js_gt0 (cmp b a)"
    and trans: "\<And>a b c. \<not> js_gt0 (cmp a b) \<Longrightarrow> \<not> js_gt0 (cmp b c) \<Longrightarrow> \<not> js_gt0 (cmp a c)"
    and sorted: "sorted_wrt (\<lambda>a b. \<not> js_gt0 (cmp a b)) ys"
  shows "sorted_wrt (\<lambda>a b. \<not> js_gt0 (cmp a b)) (insert_by cmp x ys)"
  using sorted
proof (induction ys)
  case Nil
  then show ?case by simp
next
  case (Cons y ys)
  show ?case
  proof (cases "js_gt0 (cmp x y)")
    case True
    then have "\<not> js_gt0 (cmp y x)" using total by blast
    then show ?thesis
      using True Cons by (auto simp: set_insert_by)
  next
    case False
    then have "\<forall>z\<in>set ys. \<not> js_gt0 (cmp x z)"
      using Cons.prems trans by auto
    then show ?thesis
      using False Cons.prems by simp
  qed
qed

lemma sorted_Array_sort:
  assumes total: "\<And>a b. \<not> js_gt0 (cmp a b) \<or> \<not> js_gt0 (cmp b a)"
    and trans: "\<And>a b c. \<not> js_gt0 (cmp a b) \<Longrightarrow> \<not> js_gt0 (cmp b c) \<Longrightarrow> \<not> js_gt0 (cmp a c)"
  shows "sorted_wrt (\<lambda>a b. \<not> js_gt0 (cmp a b)) (Array_sort cmp xs)"
  unfolding Array_sort_def
proof (induction xs)
  case Nil
  then show ?case by simp
next
  case (Cons x xs)
  then show ?case
    using sorted_insert_by [of cmp, OF total trans] by simp
qed

lemma sorted_by_version:
  "sorted_wrt (\<lambda>a b. not_after (version (meta a)) (version (meta b)))
     (Array_sort (\<lambda>a b. compareVersions (version (meta a)) (version (meta b))) ms)"
proof -
  let ?cmp = "\<lambda>a b. compareVersions (version (meta a)) (version (meta b))"
  have "sorted_wrt (\<lambda>a b. \<not> js_gt0 (?cmp a b)) (Array_sort ?cmp ms)"
  proof (rule sorted_Array_sort)
    show "\<not> js_gt0 (?cmp a b) \<or> \<not> js_gt0 (?cmp b a)" for a b
      using not_after_total [of "version (meta a)" "version (meta b)"]
      by (simp add: not_after_def)
    show "\<not> js_gt0 (?cmp a b) \<Longrightarrow> \<not> js_gt0 (?cmp b c) \<Longrightarrow> \<not> js_gt0 (?cmp a c)" for a b c
      using not_after_trans [of "version (meta a)" "version (meta b)" "version (meta c)"]
      by (simp add: not_after_def)
  qed
  then show ?thesis by (simp add: not_after_def)
qed

lemma import_all_result:
  "import_all load fs ms = (r, ms') \<Longrightarrow>
   r = Inr () \<longleftrightarrow> (\<forall>f\<in>set fs. \<exists>m. load f = Inr m)"
  by (induction fs arbitrary: ms) (auto split: sum.splits)

lemma import_all_success:
  "\<forall>f\<in>set fs. \<exists>m. load f = Inr m \<Longrightarrow>
   import_all load fs ms = (Inr (), ms @ map (\<lambda>f. projr (load f)) fs)"
  by (induction fs arbitrary: ms) (auto split: sum.splits)

subsection \<open>The comparator on numeric versions\<close>

lemma segment_Num:
  "or0 (at_index (map Num vs) i) = Num (if i < length vs then vs ! i else 0)"
  by (simp add: or0_def at_index_def)

lemma spec_compare_step:
  assumes "i < max (length va) (length vb)"
  shows "spec_compare (drop i va) (drop i vb) =
     (if (if i < length va then va ! i else 0) \<noteq> (if i < length vb then vb ! i else 0)
      then (if i < length va then va ! i else 0) - (if i < length vb then vb ! i else 0)
      else spec_compare (drop (Suc i) va) (drop (Suc i) vb))"
proof -
  consider "i < length va" "i < length vb" | "i < length va" "\<not> i < length vb"
    | "\<not> i < length va" "i < length vb"
    using assms by fastforce
  then show ?thesis
  proof cases
    case 1
    then show ?thesis
      by (simp add: Cons_nth_drop_Suc [symmetric])
  next
    case 2
    then show ?thesis
      by (simp add: Cons_nth_drop_Suc [symmetric])
  next
    case 3
    then show ?thesis
      by (simp add: Cons_nth_drop_Suc [symmetric])
  qed
qed

lemma compare_from_exact:
  assumes "\<forall>x\<in>set va. 0 \<le> x \<and> x < 2 ^ 53" and "\<forall>y\<in>set vb. 0 \<le> y \<and> y < 2 ^ 53"
  shows "compare_from (map Num va) (map Num vb) i = Num (spec_compare (drop i va) (drop i vb))"
proof (induction "max (length va) (length vb) - i" arbitrary: i)
  case 0
  then have "\<not> i < max (length va) (length vb)" by linarith
  then show ?case by (subst compare_from.simps) simp
next
  case (Suc n)
  then have lt: "i < max (length va) (length vb)" by linarith
  let ?x = "if i < length va then va ! i else 0"
  let ?y = "if i < length vb then vb ! i else 0"
  have x: "0 \<le> ?x \<and> ?x < 2 ^ 53" using assms(1) by auto
  have y: "0 \<le> ?y \<and> ?y < 2 ^ 53" using assms(2) by auto
  have sub: "toDouble (?x - ?y) = Num (?x - ?y)"
    using x y by (intro toDouble_exact) linarith
  have ih: "compare_from (map Num va) (map Num vb) (Suc i)
              = Num (spec_compare (drop (Suc i) va) (drop (Suc i) vb))"
    using Suc.hyps(2) by (intro Suc.hyps(1)) linarith
  have "compare_from (map Num va) (map Num vb) i =
          (if ?x \<noteq> ?y then Num (?x - ?y)
           else Num (spec_compare (drop (Suc i) va) (drop (Suc i) vb)))"
    using lt sub ih
    by (subst compare_from.simps) (simp add: segment_Num strict_neq_def del: of_nat_less_iff)
  also have "\<dots> = Num (spec_compare (drop i va) (drop i vb))"
    using spec_compare_step [OF lt] by simp
  finally show ?case .
qed

lemma Number_numeric: "numeric_segment s \<Longrightarrow> Number s = Num (int (digits_value s))"
  by (simp add: numeric_segment_def Number_def toDouble_exact)

lemma compareVersions_numeric:
  assumes "numeric_version a" and "numeric_version b"
  shows "compareVersions a b = Num (spec_compare (segment_values a) (segment_values b))"
proof -
  have a: "map Number (split_dot a) = map Num (segment_values a)"
    using assms(1) by (simp add: numeric_version_def segment_values_def list_all_iff Number_numeric)
  have b: "map Number (split_dot b) = map Num (segment_values b)"
    using assms(2) by (simp add: numeric_version_def segment_values_def list_all_iff Number_numeric)
  have ra: "\<forall>x\<in>set (segment_values a). 0 \<le> x \<and> x < 2 ^ 53"
    using assms(1)
    by (auto simp: numeric_version_def segment_values_def list_all_iff numeric_segment_def)
  have rb: "\<forall>x\<in>set (segment_values b). 0 \<le> x \<and> x < 2 ^ 53"
    using assms(2)
    by (auto simp: numeric_version_def segment_values_def list_all_iff numeric_segment_def)
  show ?thesis
    unfolding compareVersions_def a b
    using compare_from_exact [OF ra rb, of 0] by simp
qed

subsection \<open>The database calls\<close>

lemma invoked_append: "invoked mth (xs @ ys) = invoked mth xs @ invoked mth ys"
  by (induction mth xs rule: invoked.induct) simp_all

lemma queries_of_append: "queries_of (xs @ ys) = queries_of xs @ queries_of ys"
  by (induction xs rule: queries_of.induct) simp_all

lemma console_errors_append: "console_errors (xs @ ys) = console_errors xs @ console_errors ys"
  by (induction xs rule: console_errors.induct) simp_all

lemma invocations_append: "invocations (xs @ ys) = invocations xs @ invocations ys"
  by (induction xs rule: invocations.induct) simp_all

lemmas trace_append = invoked_append queries_of_append console_errors_append invocations_append

lemmas issue_eq = issue_def

lemma emit_fields:
  "schema (emit e w) = schema w" "transaction (emit e w) = transaction w"
  "ledger (emit e w) = ledger w" "clock (emit e w) = clock w" "faults (emit e w) = faults w"
  "trace (emit e w) = trace w @ [e]" "session (emit e w) = session w"
  by (simp_all add: emit_def session_def split: option.splits)

lemmas db_defs = connect_def begin_tx_def commit_tx_def rollback_tx_def statement_def
  table_exists_def create_table_def select_row_def insert_row_def delete_row_def release_def

lemma validate_fields:
  assumes "validate m w = (b, w')"
  shows "schema w' = schema w" and "transaction w' = transaction w" and "clock w' = clock w"
    and "ledger w' = (case ledger w of None \<Rightarrow> ledger w' | Some rows \<Rightarrow> Some rows)"
    and "ledger w' = None \<or> ledger w' = Some [] \<or> ledger w' = ledger w"
    and "invoked mth (trace w') = invoked mth (trace w) @ (if mth = Validate then [m] else [])"
  using assms
  by (auto simp: validate_def validate_try_def db_defs issue_eq emit_fields trace_append
      split: option.splits if_splits sum.splits prod.splits)

lemma invoked_queries: "invoked mth (map Query cs) = []"
  by (induction cs) simp_all

lemma console_errors_queries: "console_errors (map Query cs) = []"
  by (induction cs) simp_all

lemma queries_of_queries: "queries_of (map Query cs) = cs"
  by (induction cs) simp_all

lemma invocations_queries: "invocations (map Query cs) = []"
  by (induction cs) simp_all

lemma batch_trace_step:
  "trace w' = trace w @ [Query c] \<Longrightarrow> \<not> ledger_read c \<Longrightarrow> batch_trace w w'"
  unfolding batch_trace_def by (rule exI [of _ "[c]"]) simp

lemma batch_trace_refl: "trace w' = trace w \<Longrightarrow> batch_trace w w'"
  unfolding batch_trace_def by (rule exI [of _ "[]"]) simp

lemma batch_trace_trans: "batch_trace w w1 \<Longrightarrow> batch_trace w1 w2 \<Longrightarrow> batch_trace w w2"
proof -
  assume "batch_trace w w1" and "batch_trace w1 w2"
  then obtain cs ds where
    "trace w1 = trace w @ map Query cs" "\<forall>c\<in>set cs. \<not> ledger_read c"
    "trace w2 = trace w1 @ map Query ds" "\<forall>c\<in>set ds. \<not> ledger_read c"
    unfolding batch_trace_def by blast
  then have "trace w2 = trace w @ map Query (cs @ ds) \<and> (\<forall>c\<in>set (cs @ ds). \<not> ledger_read c)"
    by auto
  then show ?thesis unfolding batch_trace_def by blast
qed

lemma batch_trace_projections:
  assumes "batch_trace w w'"
  shows "invoked mth (trace w') = invoked mth (trace w)"
    and "console_errors (trace w') = console_errors (trace w)"
    and "filter ledger_read (queries_of (trace w')) = filter ledger_read (queries_of (trace w))"
    and "invocations (trace w') = invocations (trace w)"
proof -
  obtain cs where cs: "trace w' = trace w @ map Query cs" "\<forall>c\<in>set cs. \<not> ledger_read c"
    using assms unfolding batch_trace_def by blast
  show "invocations (trace w') = invocations (trace w)"
    using cs by (simp add: trace_append invocations_queries)
  show "invoked mth (trace w') = invoked mth (trace w)"
    using cs by (simp add: trace_append invoked_queries)
  show "console_errors (trace w') = console_errors (trace w)"
    using cs by (simp add: trace_append console_errors_queries)
  have "filter ledger_read cs = []" using cs(2) by (simp add: filter_empty_conv)
  then show "filter ledger_read (queries_of (trace w')) = filter ledger_read (queries_of (trace w))"
    using cs by (simp add: trace_append queries_of_queries)
qed

lemma statement_frame:
  assumes "statement sem q w = (r, w')" and "transaction w = Some t"
  shows "schema w' = schema w" and "ledger w' = ledger w" and "clock w' = clock w"
    and "batch_trace w w'"
    and "r = Inr () \<Longrightarrow> \<exists>t'. sem q t = Some t' \<and> transaction w' = Some t'"
    and "\<exists>t'. transaction w' = Some t'"
    and "r \<noteq> Inr () \<Longrightarrow> r = Inl (QueryError (Statement q))"
  using assms
  by (auto simp: statement_def issue_eq emit_fields intro!: batch_trace_step
      split: option.splits if_splits)

lemma run_queries_frame:
  assumes "run_queries sem qs w = (r, w')" and "transaction w = Some t"
  shows "schema w' = schema w \<and> ledger w' = ledger w \<and> clock w' = clock w
    \<and> (\<exists>t'. transaction w' = Some t')
    \<and> (r = Inr () \<longrightarrow> transaction w' = effects sem qs t)
    \<and> (r \<noteq> Inr () \<longrightarrow> (\<exists>q\<in>set qs. r = Inl (QueryError (Statement q))))
    \<and> batch_trace w w'"
  using assms
proof (induction qs arbitrary: w t)
  case Nil
  then show ?case by (auto intro: batch_trace_refl)
next
  case (Cons q qs)
  obtain r1 w1 where st: "statement sem q w = (r1, w1)" by force
  note fr = statement_frame [OF st Cons.prems(2)]
  show ?case
  proof (cases r1)
    case (Inl e)
    then have "w' = w1" and "r = Inl e" using Cons.prems(1) st by auto
    then show ?thesis using fr Inl by auto
  next
    case (Inr u)
    then obtain t1 where t1: "sem q t = Some t1" "transaction w1 = Some t1"
      using fr(5) by auto
    have rest: "run_queries sem qs w1 = (r, w')"
      using Cons.prems(1) st Inr by simp
    note ih = Cons.IH [OF rest t1(2)]
    have "batch_trace w w'"
      using fr(4) ih by (blast intro: batch_trace_trans)
    then show ?thesis
      using ih fr(1,2,3) t1 by simp
  qed
qed

lemma batch_try_frame:
  assumes "batch_try sem qs w = (r, w')"
  shows "ledger w' = ledger w \<and> clock w' = clock w
    \<and> (case r of
          Inr _ \<Rightarrow> effects sem qs (session w) = Some (schema w') \<and> transaction w' = None
        | Inl e \<Rightarrow> schema w' = schema w \<and> e \<noteq> QueryError Rollback)
    \<and> batch_trace w w'"
proof -
  obtain r1 w1 where b: "begin_tx w = (r1, w1)" by force
  have b1: "schema w1 = schema w" "ledger w1 = ledger w" "clock w1 = clock w"
    "batch_trace w w1"
    "r1 = Inr () \<longrightarrow> transaction w1 = Some (session w)"
    "r1 \<noteq> Inr () \<longrightarrow> r1 = Inl (QueryError Begin)"
    using b
    by (auto simp: begin_tx_def issue_eq emit_fields session_def intro!: batch_trace_step
        split: if_splits option.splits)
  show ?thesis
  proof (cases r1)
    case (Inl e)
    then have "w' = w1" "r = Inl e" using assms(1) b by (auto simp: batch_try_def)
    then show ?thesis using b1 Inl by auto
  next
    case (Inr u)
    then have tx: "transaction w1 = Some (session w)" using b1(5) by simp
    obtain r2 w2 where q: "run_queries sem qs w1 = (r2, w2)" by force
    note fr = run_queries_frame [OF q tx]
    have bt: "batch_trace w w2" using b1(4) fr by (blast intro: batch_trace_trans)
    show ?thesis
    proof (cases r2)
      case (Inl e)
      then have "w' = w2" "r = Inl e"
        using assms(1) b q \<open>r1 = Inr u\<close> by (auto simp: batch_try_def)
      then show ?thesis using fr b1 bt Inl by auto
    next
      case (Inr u2)
      then have c: "commit_tx w2 = (r, w')"
        using assms(1) b q \<open>r1 = Inr u\<close> by (auto simp: batch_try_def)
      obtain t2 where t2: "transaction w2 = Some t2" "effects sem qs (session w) = Some t2"
        using fr Inr by auto
      have c1: "ledger w' = ledger w2" "clock w' = clock w2"
        "batch_trace w2 w'"
        "case r of Inr _ \<Rightarrow> schema w' = t2 \<and> transaction w' = None
                 | Inl e \<Rightarrow> schema w' = schema w2 \<and> e = QueryError Commit"
        using c t2(1)
        by (auto simp: commit_tx_def issue_eq emit_fields intro!: batch_trace_step split: if_splits)
      have "batch_trace w w'" using bt c1(3) by (rule batch_trace_trans)
      then show ?thesis
        using c1 fr b1 t2 by (auto split: sum.splits)
    qed
  qed
qed

lemma executeBatch_frame:
  assumes "executeBatch sem qs w = (r, w')"
  shows "ledger w' = ledger w \<and> clock w' = clock w
    \<and> (case r of
          Inr _ \<Rightarrow> effects sem qs (session w) = Some (schema w') \<and> transaction w' = None
        | Inl e \<Rightarrow> schema w' = schema w
                  \<and> (e \<noteq> QueryError Rollback \<longrightarrow> transaction w = None \<longrightarrow> transaction w' = None))
    \<and> batch_trace w w'"
proof -
  obtain r0 w0 where c: "connect w = (r0, w0)" by force
  have c0: "schema w0 = schema w" "ledger w0 = ledger w" "clock w0 = clock w"
    "batch_trace w w0" "transaction w0 = transaction w" "session w0 = session w"
    using c
    by (auto simp: connect_def issue_eq emit_fields session_def intro!: batch_trace_step
        split: if_splits option.splits)
  show ?thesis
  proof (cases r0)
    case (Inl e)
    then have "w' = w0" "r = Inl e" using assms c by (auto simp: executeBatch_def)
    then show ?thesis using c0 by auto
  next
    case (Inr u)
    obtain r1 w1 where b: "batch_try sem qs w0 = (r1, w1)" by force
    note fr = batch_try_frame [OF b]
    have bt: "batch_trace w w1" using c0(4) fr by (blast intro: batch_trace_trans)
    show ?thesis
    proof (cases r1)
      case (Inr u1)
      then have "w' = release w1" "r = Inr ()"
        using assms c b \<open>r0 = Inr u\<close> by (auto simp: executeBatch_def)
      then show ?thesis
        using fr c0 Inr bt by (auto simp: release_def)
    next
      case (Inl e)
      obtain r2 w2 where rb: "rollback_tx w1 = (r2, w2)" by force
      have rb1: "schema w2 = schema w1" "ledger w2 = ledger w1" "clock w2 = clock w1"
        "batch_trace w1 w2"
        "r2 = Inr () \<longrightarrow> transaction w2 = None"
        "r2 \<noteq> Inr () \<longrightarrow> r2 = Inl (QueryError Rollback)"
        using rb
        by (auto simp: rollback_tx_def issue_eq emit_fields intro!: batch_trace_step split: if_splits)
      have res: "w' = release w2" "r = (case r2 of Inl e' \<Rightarrow> Inl e' | Inr _ \<Rightarrow> Inl e)"
        using assms c b rb Inl \<open>r0 = Inr u\<close>
        by (auto simp: executeBatch_def split: sum.splits)
      have ne: "e \<noteq> QueryError Rollback"
        using fr Inl by simp
      have "batch_trace w w2" using bt rb1(4) by (rule batch_trace_trans)
      then show ?thesis
        using res rb1 fr c0 Inl ne by (cases r2) (auto simp: release_def)
    qed
  qed
qed

lemma undisturbed_issue:
  assumes "undisturbed w"
  shows "fst (issue c w)" and "undisturbed (snd (issue c w))"
  using assms by (cases "faults w"; simp add: undisturbed_def issue_def emit_fields)+

lemma undisturbed_update [simp]:
  "undisturbed (w\<lparr>transaction := t\<rparr>) = undisturbed w"
  "undisturbed (w\<lparr>schema := s\<rparr>) = undisturbed w"
  "undisturbed (w\<lparr>ledger := l\<rparr>) = undisturbed w"
  "undisturbed (w\<lparr>clock := k\<rparr>) = undisturbed w"
  "undisturbed (emit e w) = undisturbed w"
  by (simp_all add: undisturbed_def emit_def)




lemma effects_failing:
  "(effects sem qs s = None) = (failing_statement sem qs s \<noteq> None)"
  by (induction qs arbitrary: s) (auto split: option.splits)

lemma up_frame:
  assumes "up sem m w = (r, w')"
  shows "ledger w' = ledger w" and "clock w' = clock w"
    and "case r of
           Inr _ \<Rightarrow> effects sem (up_queries m) (session w) = Some (schema w') \<and> transaction w' = None
         | Inl e \<Rightarrow> schema w' = schema w
                   \<and> (e \<noteq> QueryError Rollback \<longrightarrow> transaction w = None \<longrightarrow> transaction w' = None)"
    and "invoked mth (trace w') = invoked mth (trace w) @ (if mth = Up then [m] else [])"
    and "console_errors (trace w') = console_errors (trace w)"
    and "filter ledger_read (queries_of (trace w')) = filter ledger_read (queries_of (trace w))"
    and "invocations (trace w') = invocations (trace w) @ [(Up, m)]"
  using executeBatch_frame [OF assms [unfolded up_def]]
    batch_trace_projections [of "emit (Invoke Up m) w" w']
  by (auto simp add: emit_fields trace_append split: sum.splits)

lemma down_frame:
  assumes "down sem m w = (r, w')"
  shows "ledger w' = ledger w" and "clock w' = clock w"
    and "case r of
           Inr _ \<Rightarrow> effects sem (down_queries m) (session w) = Some (schema w') \<and> transaction w' = None
         | Inl e \<Rightarrow> schema w' = schema w
                   \<and> (e \<noteq> QueryError Rollback \<longrightarrow> transaction w = None \<longrightarrow> transaction w' = None)"
    and "invoked mth (trace w') = invoked mth (trace w) @ (if mth = Down then [m] else [])"
    and "console_errors (trace w') = console_errors (trace w)"
    and "filter ledger_read (queries_of (trace w')) = filter ledger_read (queries_of (trace w))"
    and "invocations (trace w') = invocations (trace w) @ [(Down, m)]"
  using executeBatch_frame [OF assms [unfolded down_def]]
    batch_trace_projections [of "emit (Invoke Down m) w" w']
  by (auto simp add: emit_fields trace_append split: sum.splits)

subsection \<open>The ledger operations of a unit\<close>

lemma issue_undisturbed:
  "undisturbed w \<Longrightarrow> issue c w = (True, emit (Query c) (w\<lparr>faults := tl (faults w)\<rparr>))"
  using undisturbed_issue(1) [of w c] by (simp add: issue_def)

lemma issue_no_fault:
  "True \<notin> set (faults w) \<Longrightarrow> issue c w = (True, emit (Query c) (w\<lparr>faults := tl (faults w)\<rparr>))"
  using issue_undisturbed [of w c] by (simp add: undisturbed_def)

lemma no_fault_tl: "True \<notin> set fs \<Longrightarrow> True \<notin> set (tl fs)"
  by (cases fs) simp_all

lemma recorded_fields [simp]:
  "recorded (emit e w) = recorded w"
  "recorded (w\<lparr>faults := fs\<rparr>) = recorded w"
  "recorded (w\<lparr>transaction := t\<rparr>) = recorded w"
  "recorded (w\<lparr>schema := s\<rparr>) = recorded w"
  by (simp_all add: recorded_def emit_def)

lemma validate_outcome:
  assumes "validate m w = (b, w')"
  shows "(console_errors (trace w') = console_errors (trace w)
          \<and> b = (id' (meta m) \<notin> recorded w)
          \<and> ledger w' = Some (case ledger w of None \<Rightarrow> [] | Some rows \<Rightarrow> rows))
       \<or> ((\<exists>e. console_errors (trace w') =
                  console_errors (trace w) @ [(''Migration validation failed:'', e)])
          \<and> \<not> b
          \<and> (ledger w' = ledger w \<or> ledger w = None \<and> ledger w' = Some []))"
  using assms
  by (auto simp: validate_def validate_try_def db_defs issue_eq emit_fields trace_append
      recorded_def filter_empty_conv image_iff
      split: option.splits if_splits sum.splits prod.splits; metis)

lemma recorded_created: "ledger w = None \<Longrightarrow> ledger w' = Some [] \<Longrightarrow> recorded w' = recorded w"
  by (simp add: recorded_def)

lemma recorded_same: "ledger w' = ledger w \<Longrightarrow> recorded w' = recorded w"
  by (simp add: recorded_def)

lemma validate_cases:
  assumes "validate m w = (b, w')"
  shows "b \<Longrightarrow> id' (meta m) \<notin> recorded w"
    and "b \<Longrightarrow> ledger w' = Some (case ledger w of None \<Rightarrow> [] | Some rows \<Rightarrow> rows)"
    and "id' (meta m) \<in> recorded w \<Longrightarrow> \<not> b"
    and "ledger w \<noteq> None \<Longrightarrow> ledger w' = ledger w"
    and "recorded w' = recorded w"
    and "\<exists>es. console_errors (trace w') = console_errors (trace w) @ es"
proof -
  note o = validate_outcome [OF assms]
  show "b \<Longrightarrow> id' (meta m) \<notin> recorded w" using o by blast
  show "b \<Longrightarrow> ledger w' = Some (case ledger w of None \<Rightarrow> [] | Some rows \<Rightarrow> rows)"
    using o by blast
  show "id' (meta m) \<in> recorded w \<Longrightarrow> \<not> b" using o by blast
  show "ledger w \<noteq> None \<Longrightarrow> ledger w' = ledger w" using o by auto
  show "recorded w' = recorded w"
    using o by (cases "ledger w") (auto simp: recorded_def)
  show "\<exists>es. console_errors (trace w') = console_errors (trace w) @ es"
    using o by auto
qed

lemma validate_skipped:
  assumes "validate m w = (False, w')"
    and "console_errors (trace w') = console_errors (trace w)"
  shows "id' (meta m) \<in> recorded w"
  using validate_outcome [OF assms(1)] assms(2) by auto

lemma validate_no_error:
  assumes "validate m w = (b, w')"
    and "console_errors (trace w') = console_errors (trace w)"
  shows "b = (id' (meta m) \<notin> recorded w)"
    and "ledger w' = Some (case ledger w of None \<Rightarrow> [] | Some rows \<Rightarrow> rows)"
  using validate_outcome [OF assms(1)] assms(2) by auto

lemma validate_error:
  assumes "validate m w = (b, w')"
    and "console_errors (trace w') \<noteq> console_errors (trace w)"
  shows "\<not> b"
  using validate_outcome [OF assms(1)] assms(2) by auto

lemma validate_undisturbed:
  assumes "undisturbed w" and "validate m w = (b, w')"
  shows "undisturbed w'" and "b = (id' (meta m) \<notin> recorded w)"
    and "ledger w' = Some (case ledger w of None \<Rightarrow> [] | Some rows \<Rightarrow> rows)"
    and "console_errors (trace w') = console_errors (trace w)"
  using assms
  by (auto simp: validate_def validate_try_def db_defs issue_no_fault no_fault_tl undisturbed_def
      emit_fields trace_append recorded_def filter_empty_conv image_iff
      split: option.splits if_splits sum.splits prod.splits)

lemma char_length_le: "char_length s \<le> length s"
  by (simp add: char_length_def)

lemma take_chars_all: "char_length s \<le> n \<Longrightarrow> take_chars n s = s"
  by (induction s arbitrary: n) (auto simp: char_length_def split: nat.splits if_splits)

lemma varchar_fits: "char_length s \<le> n \<Longrightarrow> varchar n s = Some s"
  by (simp add: varchar_def)

lemma varchar_short: "length s \<le> n \<Longrightarrow> varchar n s = Some s"
  using char_length_le [of s] by (simp add: varchar_def)

lemma varchar_Some: "varchar n s = Some j \<Longrightarrow> j = take_chars n s"
  by (auto simp: varchar_def take_chars_all split: if_splits)

lemma new_row_id:
  "new_row i n v c md t = Some row \<Longrightarrow> row_id row = take_chars 255 i"
  by (auto simp: new_row_def dest: varchar_Some split: option.splits)

lemma insert_row_cases:
  assumes "insert_row i n v c md w = (r, w')"
  shows "schema w' = schema w \<and> transaction w' = transaction w
    \<and> trace w' = trace w @ [Query (InsertRow i n v c md)]
    \<and> (r = Inr ()
         \<and> (\<exists>rows row. ledger w = Some rows \<and> new_row i n v c md (clock w) = Some row
               \<and> row_id row \<notin> row_id ` set rows
               \<and> ledger w' = Some (rows @ [row]) \<and> clock w' = Suc (clock w))
       \<or> r = Inl (QueryError (InsertRow i n v c md))
         \<and> ledger w' = ledger w \<and> clock w' = clock w)"
  using assms
  by (auto simp: insert_row_def issue_eq emit_fields split: option.splits if_splits)

lemma recordMigration_frame:
  assumes "recordMigration m cs w = (r, w')"
  shows "schema w' = schema w" and "transaction w' = transaction w"
    and "invoked mth (trace w') = invoked mth (trace w) @ (if mth = RecordMigration then [m] else [])"
    and "console_errors (trace w') = console_errors (trace w)"
    and "recorded w \<subseteq> recorded w'"
    and "r = Inr () \<Longrightarrow>
           recorded w' = insert (take_chars 255 (id' (meta m))) (recorded w) \<and> ledger w' \<noteq> None"
    and "r \<noteq> Inr () \<Longrightarrow> ledger w' = ledger w \<and> clock w' = clock w"
    and "invocations (trace w') = invocations (trace w) @ [(RecordMigration, m)]"
proof -
  note c = insert_row_cases [OF assms [unfolded recordMigration_def]]
  show "schema w' = schema w" and "transaction w' = transaction w"
    using c by (simp_all add: emit_fields)
  show "invoked mth (trace w') = invoked mth (trace w) @ (if mth = RecordMigration then [m] else [])"
    using c by (simp add: emit_fields trace_append)
  show "console_errors (trace w') = console_errors (trace w)"
    using c by (simp add: emit_fields trace_append)
  show "invocations (trace w') = invocations (trace w) @ [(RecordMigration, m)]"
    using c by (simp add: emit_fields trace_append)
  show "recorded w \<subseteq> recorded w'"
    using c by (auto simp: emit_fields recorded_def)
  show "recorded w' = insert (take_chars 255 (id' (meta m))) (recorded w) \<and> ledger w' \<noteq> None"
    if "r = Inr ()"
    using c that by (auto simp: emit_fields recorded_def dest!: new_row_id)
  show "ledger w' = ledger w \<and> clock w' = clock w" if "r \<noteq> Inr ()"
    using c that by (auto simp: emit_fields)
qed

lemma removeMigrationRecord_frame:
  assumes "removeMigrationRecord m w = (r, w')"
  shows "schema w' = schema w" and "transaction w' = transaction w" and "clock w' = clock w"
    and "invoked mth (trace w') =
           invoked mth (trace w) @ (if mth = RemoveMigrationRecord then [m] else [])"
    and "console_errors (trace w') = console_errors (trace w)"
    and "filter ledger_read (queries_of (trace w')) = filter ledger_read (queries_of (trace w))"
    and "r = Inr () \<Longrightarrow>
           \<exists>rows. ledger w = Some rows \<and>
                  ledger w' = Some (filter (\<lambda>row. row_id row \<noteq> id' (meta m)) rows)"
    and "r \<noteq> Inr () \<Longrightarrow> ledger w' = ledger w"
    and "invocations (trace w') = invocations (trace w) @ [(RemoveMigrationRecord, m)]"
  using assms
  by (auto simp: removeMigrationRecord_def delete_row_def issue_eq emit_fields trace_append
      split: option.splits if_splits)

subsection \<open>Applying the units\<close>

lemma apply_one_outcome:
  assumes v: "validate m w = (b, w1)"
  shows "\<not> b \<Longrightarrow> apply_one sem m w = (Inr (), w1)"
    and "b \<Longrightarrow>
          up sem m (emit (ConsoleLog (''Applying migration: '' @ name (meta m) @ '' (''
                                        @ version (meta m) @ '')'')) w1) = (Inl e, w2) \<Longrightarrow>
          apply_one sem m w =
            (Inl e, emit (ConsoleError (''Failed to apply migration '' @ name (meta m) @ '':'') e) w2)"
    and "b \<Longrightarrow>
          up sem m (emit (ConsoleLog (''Applying migration: '' @ name (meta m) @ '' (''
                                        @ version (meta m) @ '')'')) w1) = (Inr u, w2) \<Longrightarrow>
          recordMigration m (generateChecksum m) w2 = (Inl e, w3) \<Longrightarrow>
          apply_one sem m w =
            (Inl e, emit (ConsoleError (''Failed to apply migration '' @ name (meta m) @ '':'') e) w3)"
    and "b \<Longrightarrow>
          up sem m (emit (ConsoleLog (''Applying migration: '' @ name (meta m) @ '' (''
                                        @ version (meta m) @ '')'')) w1) = (Inr u, w2) \<Longrightarrow>
          recordMigration m (generateChecksum m) w2 = (Inr u', w3) \<Longrightarrow>
          apply_one sem m w =
            (Inr (), emit (ConsoleLog (''Successfully applied migration: '' @ name (meta m))) w3)"
  using v by (simp_all add: apply_one_def)

lemma apply_one_frame:
  assumes "apply_one sem m w = (r, w')"
  shows "invoked Validate (trace w') = invoked Validate (trace w) @ [m]"
    and "recorded w \<subseteq> recorded w'"
    and "\<exists>es. console_errors (trace w') = console_errors (trace w) @ es"
    and "r = Inr () \<Longrightarrow> console_errors (trace w') = console_errors (trace w) \<Longrightarrow>
           entered m w'"
proof -
  obtain b w1 where v: "validate m w = (b, w1)" by force
  note vf = validate_fields [OF v] and vc = validate_cases [OF v]
  let ?w1 = "emit (ConsoleLog (''Applying migration: '' @ name (meta m) @ '' (''
                                 @ version (meta m) @ '')'')) w1"
  obtain ru w2 where u: "up sem m ?w1 = (ru, w2)" by force
  note uf = up_frame [OF u]
  obtain rr w3 where rc: "recordMigration m (generateChecksum m) w2 = (rr, w3)" by force
  note rf = recordMigration_frame [OF rc]
  obtain es where es: "console_errors (trace w1) = console_errors (trace w) @ es"
    using vc(6) by blast
  have rec2: "recorded w2 = recorded w"
    using uf(1) vc(5) by (simp add: recorded_def emit_fields)
  consider (skip) "\<not> b" | (upfail) e where "b" "ru = Inl e"
    | (recfail) e where "b" "ru = Inr ()" "rr = Inl e"
    | (applied) "b" "ru = Inr ()" "rr = Inr ()"
    by (cases ru; cases rr) auto
  then have "invoked Validate (trace w') = invoked Validate (trace w) @ [m]
      \<and> recorded w \<subseteq> recorded w'
      \<and> (\<exists>es. console_errors (trace w') = console_errors (trace w) @ es)
      \<and> (r = Inr () \<longrightarrow> console_errors (trace w') = console_errors (trace w) \<longrightarrow>
           entered m w')"
  proof cases
    case skip
    then have w': "w' = w1" "r = Inr ()"
      using apply_one_outcome(1) [OF v] assms by auto
    have "console_errors (trace w1) = console_errors (trace w) \<longrightarrow> id' (meta m) \<in> recorded w"
      using validate_skipped [of m w w1] v skip by simp
    then show ?thesis
      using w' vf(6) [of Validate] vc(5) es by (auto simp: entered_def)
  next
    case upfail
    then have w': "w' = emit (ConsoleError (''Failed to apply migration '' @ name (meta m) @ '':'') e) w2"
      "r = Inl e"
      using apply_one_outcome(2) [OF v, of sem e w2] u assms by auto
    show ?thesis
      using w' uf(4) [of Validate] uf(5) vf(6) [of Validate] rec2 es
      by (simp add: emit_fields trace_append)
  next
    case recfail
    then have w': "w' = emit (ConsoleError (''Failed to apply migration '' @ name (meta m) @ '':'') e) w3"
      "r = Inl e"
      using apply_one_outcome(3) [OF v, of sem "()" w2 e w3] u rc assms by auto
    show ?thesis
      using w' uf(4) [of Validate] uf(5) vf(6) [of Validate] rf(3) [of Validate] rf(4,5) rec2 es
      by (simp add: emit_fields trace_append)
  next
    case applied
    then have w': "w' = emit (ConsoleLog (''Successfully applied migration: '' @ name (meta m))) w3"
      "r = Inr ()"
      using apply_one_outcome(4) [OF v, of sem "()" w2 "()" w3] u rc assms by auto
    show ?thesis
      using w' uf(4) [of Validate] uf(5) vf(6) [of Validate] rf(3) [of Validate] rf(4,5) rf(6) rec2 es applied
      by (simp add: emit_fields trace_append entered_def)
  qed
  then show "invoked Validate (trace w') = invoked Validate (trace w) @ [m]"
    and "recorded w \<subseteq> recorded w'"
    and "\<exists>es. console_errors (trace w') = console_errors (trace w) @ es"
    and "r = Inr () \<Longrightarrow> console_errors (trace w') = console_errors (trace w) \<Longrightarrow>
           entered m w'"
    by blast+
qed

lemma apply_loop_append:
  "apply_loop sem (pre @ rest) w =
     (case apply_loop sem pre w of
        (Inl e, w') \<Rightarrow> (Inl e, w')
      | (Inr _, w') \<Rightarrow> apply_loop sem rest w')"
  by (induction pre arbitrary: w) (auto split: prod.splits sum.splits)

lemma apply_loop_visits:
  assumes "apply_loop sem ms w = (r, w')"
  shows "\<exists>vs. invoked Validate (trace w') = invoked Validate (trace w) @ vs
              \<and> prefix vs ms \<and> (r = Inr () \<longrightarrow> vs = ms)"
  using assms
proof (induction ms arbitrary: w)
  case Nil
  then show ?case by simp
next
  case (Cons m ms)
  obtain r1 w1 where a: "apply_one sem m w = (r1, w1)" by force
  note f = apply_one_frame(1) [OF a]
  show ?case
  proof (cases r1)
    case (Inl e)
    then have "w' = w1" "r = Inl e" using Cons.prems a by auto
    then show ?thesis using f by (intro exI [of _ "[m]"]) simp
  next
    case (Inr u)
    then have "apply_loop sem ms w1 = (r, w')" using Cons.prems a by simp
    from Cons.IH [OF this] obtain vs where
      "invoked Validate (trace w') = invoked Validate (trace w1) @ vs"
      "prefix vs ms" "r = Inr () \<longrightarrow> vs = ms"
      by blast
    then show ?thesis using f by (intro exI [of _ "m # vs"]) simp
  qed
qed

lemma apply_loop_recorded:
  assumes "apply_loop sem ms w = (r, w')"
  shows "recorded w \<subseteq> recorded w'"
    and "\<exists>es. console_errors (trace w') = console_errors (trace w) @ es"
    and "r = Inr () \<Longrightarrow> console_errors (trace w') = console_errors (trace w) \<Longrightarrow>
           \<forall>m\<in>set ms. entered m w'"
proof -
  have "recorded w \<subseteq> recorded w'
      \<and> (\<exists>es. console_errors (trace w') = console_errors (trace w) @ es)
      \<and> (r = Inr () \<longrightarrow> console_errors (trace w') = console_errors (trace w) \<longrightarrow>
           (\<forall>m\<in>set ms. entered m w'))"
    using assms
  proof (induction ms arbitrary: w)
    case Nil
    then show ?case by simp
  next
    case (Cons m ms)
    obtain r1 w1 where a: "apply_one sem m w = (r1, w1)" by force
    note f = apply_one_frame [OF a]
    obtain es1 where es1: "console_errors (trace w1) = console_errors (trace w) @ es1"
      using f(3) by blast
    show ?case
    proof (cases r1)
      case (Inl e)
      then have "w' = w1" "r = Inl e" using Cons.prems a by auto
      then show ?thesis using f by simp
    next
      case (Inr u)
      then have rest: "apply_loop sem ms w1 = (r, w')" using Cons.prems a by simp
      note ih = Cons.IH [OF rest]
      obtain es2 where es2: "console_errors (trace w') = console_errors (trace w1) @ es2"
        using ih by blast
      have all: "console_errors (trace w') = console_errors (trace w) @ es1 @ es2"
        using es1 es2 by simp
      have "r = Inr () \<longrightarrow> console_errors (trace w') = console_errors (trace w) \<longrightarrow>
              (\<forall>m'\<in>set (m # ms). entered m' w')"
      proof (intro impI)
        assume ok: "r = Inr ()" and same: "console_errors (trace w') = console_errors (trace w)"
        then have "es1 = []" "es2 = []" using all by auto
        then have s1: "console_errors (trace w1) = console_errors (trace w)"
          and s2: "console_errors (trace w') = console_errors (trace w1)"
          using es1 es2 by auto
        have "entered m w1" using f(4) Inr s1 by simp
        then have "entered m w'" using ih by (auto simp: entered_def)
        moreover have "\<forall>m'\<in>set ms. entered m' w'" using ih ok s2 by blast
        ultimately show "\<forall>m'\<in>set (m # ms). entered m' w'" by simp
      qed
      moreover have "recorded w \<subseteq> recorded w'" using f(2) ih by blast
      ultimately show ?thesis using all by blast
    qed
  qed
  then show "recorded w \<subseteq> recorded w'"
    and "\<exists>es. console_errors (trace w') = console_errors (trace w) @ es"
    and "r = Inr () \<Longrightarrow> console_errors (trace w') = console_errors (trace w) \<Longrightarrow>
           \<forall>m\<in>set ms. entered m w'"
    by blast+
qed

lemma apply_one_skips:
  assumes "id' (meta m) \<in> recorded w" and "apply_one sem m w = (r, w')"
  shows "r = Inr ()" and "ledger w' = ledger w" and "schema w' = schema w" and "clock w' = clock w"
    and "invoked Up (trace w') = invoked Up (trace w)"
    and "invoked RecordMigration (trace w') = invoked RecordMigration (trace w)"
proof -
  obtain b w1 where v: "validate m w = (b, w1)" by force
  have nb: "\<not> b" using validate_cases(3) [OF v] assms(1) by simp
  then have "apply_one sem m w = (Inr (), w1)" using apply_one_outcome(1) [OF v] by simp
  then have w': "w' = w1" "r = Inr ()" using assms(2) by auto
  have "ledger w \<noteq> None" using assms(1) by (auto simp: recorded_def split: option.splits)
  then have "ledger w1 = ledger w" using validate_cases(4) [OF v] by simp
  then show "r = Inr ()" and "ledger w' = ledger w" and "schema w' = schema w"
    and "clock w' = clock w"
    and "invoked Up (trace w') = invoked Up (trace w)"
    and "invoked RecordMigration (trace w') = invoked RecordMigration (trace w)"
    using w' validate_fields [OF v] by simp_all
qed

lemma apply_loop_skips:
  assumes "\<forall>m\<in>set ms. id' (meta m) \<in> recorded w" and "apply_loop sem ms w = (r, w')"
  shows "r = Inr () \<and> ledger w' = ledger w \<and> schema w' = schema w \<and> clock w' = clock w
    \<and> invoked Up (trace w') = invoked Up (trace w)
    \<and> invoked RecordMigration (trace w') = invoked RecordMigration (trace w)"
  using assms
proof (induction ms arbitrary: w)
  case Nil
  then show ?case by simp
next
  case (Cons m ms)
  obtain r1 w1 where a: "apply_one sem m w = (r1, w1)" by force
  have m: "id' (meta m) \<in> recorded w" using Cons.prems(1) by simp
  note s = apply_one_skips [OF m a]
  have rest: "apply_loop sem ms w1 = (r, w')" using Cons.prems(2) a s(1) by simp
  have "recorded w1 = recorded w" using s(2) by (simp add: recorded_def)
  then have "\<forall>m\<in>set ms. id' (meta m) \<in> recorded w1" using Cons.prems(1) by simp
  from Cons.IH [OF this rest] show ?case using s by simp
qed

lemma apply_one_steps:
  assumes "apply_one sem m w = (r, w')"
  shows "invoked Up (trace w') = invoked Up (trace w) @ (if fst (validate m w) then [m] else [])"
    and "r = Inl e \<Longrightarrow>
           \<exists>w2. w' = emit (ConsoleError (''Failed to apply migration '' @ name (meta m) @ '':'') e) w2"
proof -
  obtain b w1 where v: "validate m w = (b, w1)" by force
  note vf = validate_fields [OF v]
  let ?w1 = "emit (ConsoleLog (''Applying migration: '' @ name (meta m) @ '' (''
                                 @ version (meta m) @ '')'')) w1"
  obtain ru w2 where u: "up sem m ?w1 = (ru, w2)" by force
  note uf = up_frame [OF u]
  obtain rr w3 where rc: "recordMigration m (generateChecksum m) w2 = (rr, w3)" by force
  note rf = recordMigration_frame [OF rc]
  have ups: "b \<Longrightarrow> invoked Up (trace w3) = invoked Up (trace w) @ [m]"
    "b \<Longrightarrow> invoked Up (trace w2) = invoked Up (trace w) @ [m]"
    using uf(4) [of Up] vf(6) [of Up] rf(3) [of Up] by (simp_all add: emit_fields trace_append)
  consider (skip) "\<not> b" | (upfail) e' where "b" "ru = Inl e'"
    | (recfail) e' where "b" "ru = Inr ()" "rr = Inl e'"
    | (applied) "b" "ru = Inr ()" "rr = Inr ()"
    by (cases ru; cases rr) auto
  then have "invoked Up (trace w') = invoked Up (trace w) @ (if b then [m] else [])
      \<and> (r = Inl e \<longrightarrow>
           (\<exists>w2. w' = emit (ConsoleError (''Failed to apply migration '' @ name (meta m) @ '':'') e) w2))"
  proof cases
    case skip
    then have "w' = w1" "r = Inr ()"
      using apply_one_outcome(1) [OF v] assms by auto
    then show ?thesis
      using vf(6) [of Up] skip by simp
  next
    case upfail
    then have "w' = emit (ConsoleError (''Failed to apply migration '' @ name (meta m) @ '':'') e') w2"
      "r = Inl e'"
      using apply_one_outcome(2) [OF v, of sem e' w2] u assms by auto
    then show ?thesis
      using ups upfail by (auto simp: emit_fields trace_append)
  next
    case recfail
    then have "w' = emit (ConsoleError (''Failed to apply migration '' @ name (meta m) @ '':'') e') w3"
      "r = Inl e'"
      using apply_one_outcome(3) [OF v, of sem "()" w2 e' w3] u rc assms by auto
    then show ?thesis
      using ups recfail by (auto simp: emit_fields trace_append)
  next
    case applied
    then have "w' = emit (ConsoleLog (''Successfully applied migration: '' @ name (meta m))) w3"
      "r = Inr ()"
      using apply_one_outcome(4) [OF v, of sem "()" w2 "()" w3] u rc assms by auto
    then show ?thesis
      using ups applied by (auto simp: emit_fields trace_append)
  qed
  then show "invoked Up (trace w') = invoked Up (trace w) @ (if fst (validate m w) then [m] else [])"
    and "r = Inl e \<Longrightarrow>
           \<exists>w2. w' = emit (ConsoleError (''Failed to apply migration '' @ name (meta m) @ '':'') e) w2"
    using v by auto
qed

lemma apply_loop_order:
  assumes "apply_loop sem ms w = (r, w')"
  shows "\<exists>vs us. invoked Validate (trace w') = invoked Validate (trace w) @ vs
      \<and> invoked Up (trace w') = invoked Up (trace w) @ us
      \<and> subseq us vs
      \<and> (case r of
            Inr _ \<Rightarrow> vs = ms
          | Inl e \<Rightarrow>
              (\<exists>before m after w2. ms = before @ m # after \<and> vs = before @ [m]
                 \<and> w' = emit (ConsoleError (''Failed to apply migration '' @ name (meta m) @ '':'') e)
                          w2))"
  using assms
proof (induction ms arbitrary: w)
  case Nil
  then show ?case by auto
next
  case (Cons m ms)
  obtain r1 w1 where a: "apply_one sem m w = (r1, w1)" by force
  note f = apply_one_frame(1) [OF a] and s = apply_one_steps [OF a]
  define u1 where "u1 = (if fst (validate m w) then [m] else [])"
  have u1: "invoked Up (trace w1) = invoked Up (trace w) @ u1" "subseq u1 [m]"
    using s(1) by (simp_all add: u1_def)
  show ?case
  proof (cases r1)
    case (Inl e)
    then have res: "w' = w1" "r = Inl e" using Cons.prems a by auto
    obtain w2 where
      "w1 = emit (ConsoleError (''Failed to apply migration '' @ name (meta m) @ '':'') e) w2"
      using s(2) [of e] Inl by blast
    then have "\<exists>before m' after w2. m # ms = before @ m' # after \<and> [m] = before @ [m']
        \<and> w1 = emit (ConsoleError (''Failed to apply migration '' @ name (meta m') @ '':'') e) w2"
      by (intro exI [of _ "[]"] exI [of _ m] exI [of _ ms] exI [of _ w2]) simp
    then show ?thesis
      using res f u1 by (intro exI [of _ "[m]"] exI [of _ u1]) simp
  next
    case (Inr u)
    then have "apply_loop sem ms w1 = (r, w')" using Cons.prems a by simp
    from Cons.IH [OF this] obtain vs us where ih:
      "invoked Validate (trace w') = invoked Validate (trace w1) @ vs"
      "invoked Up (trace w') = invoked Up (trace w1) @ us"
      "subseq us vs"
      "case r of
         Inr _ \<Rightarrow> vs = ms
       | Inl e \<Rightarrow>
           (\<exists>before m after w2. ms = before @ m # after \<and> vs = before @ [m]
              \<and> w' = emit (ConsoleError (''Failed to apply migration '' @ name (meta m) @ '':'') e)
                       w2)"
      by blast
    have sub: "subseq (u1 @ us) (m # vs)"
      using u1(2) ih(3) list_emb_append_mono [of "(=)" u1 "[m]" us vs] by simp
    have "case r of
         Inr _ \<Rightarrow> m # vs = m # ms
       | Inl e \<Rightarrow>
           (\<exists>before m' after w2. m # ms = before @ m' # after \<and> m # vs = before @ [m']
              \<and> w' = emit (ConsoleError (''Failed to apply migration '' @ name (meta m') @ '':'') e)
                       w2)"
    proof (cases r)
      case (Inr u')
      then show ?thesis using ih(4) by simp
    next
      case (Inl e)
      then obtain before m' after w2 where
        "ms = before @ m' # after" "vs = before @ [m']"
        "w' = emit (ConsoleError (''Failed to apply migration '' @ name (meta m') @ '':'') e) w2"
        using ih(4) by auto
      then have "m # ms = (m # before) @ m' # after \<and> m # vs = (m # before) @ [m']
          \<and> w' = emit (ConsoleError (''Failed to apply migration '' @ name (meta m') @ '':'') e) w2"
        by simp
      then show ?thesis using Inl by (simp only: sum.case) blast
    qed
    then show ?thesis
      using f u1(1) ih(1,2) sub by (intro exI [of _ "m # vs"] exI [of _ "u1 @ us"]) simp
  qed
qed

subsection \<open>Rolling a unit back\<close>

lemma rollbackMigration_found:
  assumes "find (\<lambda>u. version (meta u) = v) (migrations mgr) = Some m"
    and "down sem m
           (emit (ConsoleLog (''Rolling back migration: '' @ name (meta m) @ '' ('' @ v @ '')'')) w)
         = (rd, w1)"
    and "removeMigrationRecord m w1 = (rr, w2)"
  shows "rollbackMigration sem mgr v w =
     (case rd of
        Inl e \<Rightarrow> (Inl e, emit (ConsoleError (''Failed to rollback migration '' @ v @ '':'') e) w1)
      | Inr _ \<Rightarrow>
          (case rr of
             Inl e \<Rightarrow> (Inl e, emit (ConsoleError (''Failed to rollback migration '' @ v @ '':'') e) w2)
           | Inr _ \<Rightarrow>
               (Inr (), emit (ConsoleLog (''Successfully rolled back migration: '' @ name (meta m))) w2)))"
  using assms by (simp add: rollbackMigration_def split: sum.splits)

lemma filter_distinct_row:
  assumes "distinct (map f xs)" and "x \<in> set xs"
  shows "\<exists>before after. xs = before @ x # after
            \<and> filter (\<lambda>y. f y \<noteq> f x) xs = before @ after"
proof -
  obtain before after where xs: "xs = before @ x # after"
    using assms(2) by (auto dest: split_list)
  have "\<forall>y\<in>set before \<union> set after. f y \<noteq> f x"
    using assms(1) unfolding xs by (auto; metis imageI)
  then have "filter (\<lambda>y. f y \<noteq> f x) xs = before @ after"
    unfolding xs by (simp add: filter_id_conv)
  then show ?thesis using xs by blast
qed

lemma rollbackMigration_frame:
  assumes f: "find (\<lambda>u. version (meta u) = v) (migrations mgr) = Some m"
    and d: "down sem m
           (emit (ConsoleLog (''Rolling back migration: '' @ name (meta m) @ '' ('' @ v @ '')'')) w)
         = (rd, w1)"
    and r: "rollbackMigration sem mgr v w = (r, w')"
  shows "invoked Down (trace w') = invoked Down (trace w) @ [m]"
    and "filter ledger_read (queries_of (trace w')) = filter ledger_read (queries_of (trace w))"
    and "invoked RemoveMigrationRecord (trace w') =
           invoked RemoveMigrationRecord (trace w) @ (if rd = Inr () then [m] else [])"
    and "r = Inr () \<Longrightarrow>
           \<exists>rows. ledger w = Some rows \<and>
                  ledger w' = Some (filter (\<lambda>row. row_id row \<noteq> id' (meta m)) rows)"
    and "r = Inr () \<Longrightarrow> effects sem (down_queries m) (session w) = Some (schema w')"
    and "invocations (trace w') =
           invocations (trace w)
             @ (Down, m) # (if rd = Inr () then [(RemoveMigrationRecord, m)] else [])"
proof -
  obtain rr w2 where rm: "removeMigrationRecord m w1 = (rr, w2)" by force
  note df = down_frame [OF d] and rf = removeMigrationRecord_frame [OF rm]
  note eq = rollbackMigration_found [OF f d rm]
  show "invoked Down (trace w') = invoked Down (trace w) @ [m]"
    using r eq df(4) [of Down] rf(4) [of Down]
    by (auto simp: emit_fields trace_append split: sum.splits)
  show "filter ledger_read (queries_of (trace w')) = filter ledger_read (queries_of (trace w))"
    using r eq df(6) rf(6)
    by (auto simp: emit_fields trace_append split: sum.splits)
  show "invoked RemoveMigrationRecord (trace w') =
           invoked RemoveMigrationRecord (trace w) @ (if rd = Inr () then [m] else [])"
    using r eq df(4) [of RemoveMigrationRecord] rf(4) [of RemoveMigrationRecord]
    by (auto simp: emit_fields trace_append split: sum.splits)
  show "\<exists>rows. ledger w = Some rows \<and>
                  ledger w' = Some (filter (\<lambda>row. row_id row \<noteq> id' (meta m)) rows)"
    if "r = Inr ()"
    using that r eq df(1) rf(7)
    by (auto simp: emit_fields split: sum.splits)
  show "effects sem (down_queries m) (session w) = Some (schema w')" if "r = Inr ()"
    using that r eq df(3) rf(1)
    by (auto simp: emit_fields split: sum.splits)
  show "invocations (trace w') =
           invocations (trace w)
             @ (Down, m) # (if rd = Inr () then [(RemoveMigrationRecord, m)] else [])"
    using r eq df(7) rf(9)
    by (auto simp: emit_fields trace_append split: sum.splits)
qed

lemma issue_ledger:
  "issue c (w\<lparr>ledger := l\<rparr>) = apsnd (\<lambda>w. w\<lparr>ledger := l\<rparr>) (issue c w)"
  by (simp add: issue_def emit_def)

lemma statement_ledger:
  "statement sem q (w\<lparr>ledger := l\<rparr>) = apsnd (\<lambda>w. w\<lparr>ledger := l\<rparr>) (statement sem q w)"
  by (simp add: statement_def issue_ledger split: prod.splits option.splits)

lemma run_queries_ledger:
  "run_queries sem qs (w\<lparr>ledger := l\<rparr>) = apsnd (\<lambda>w. w\<lparr>ledger := l\<rparr>) (run_queries sem qs w)"
  by (induction qs arbitrary: w) (auto simp: statement_ledger split: prod.splits sum.splits)

lemma connect_ledger:
  "connect (w\<lparr>ledger := l\<rparr>) = apsnd (\<lambda>w. w\<lparr>ledger := l\<rparr>) (connect w)"
  by (simp add: connect_def issue_ledger split: prod.splits)

lemma begin_tx_ledger:
  "begin_tx (w\<lparr>ledger := l\<rparr>) = apsnd (\<lambda>w. w\<lparr>ledger := l\<rparr>) (begin_tx w)"
  by (auto simp: begin_tx_def issue_ledger split: prod.splits option.splits)

lemma commit_tx_ledger:
  "commit_tx (w\<lparr>ledger := l\<rparr>) = apsnd (\<lambda>w. w\<lparr>ledger := l\<rparr>) (commit_tx w)"
  by (auto simp: commit_tx_def issue_ledger split: prod.splits option.splits)

lemma rollback_tx_ledger:
  "rollback_tx (w\<lparr>ledger := l\<rparr>) = apsnd (\<lambda>w. w\<lparr>ledger := l\<rparr>) (rollback_tx w)"
  by (simp add: rollback_tx_def issue_ledger split: prod.splits)

lemma batch_try_ledger:
  "batch_try sem qs (w\<lparr>ledger := l\<rparr>) = apsnd (\<lambda>w. w\<lparr>ledger := l\<rparr>) (batch_try sem qs w)"
  by (simp add: batch_try_def begin_tx_ledger run_queries_ledger commit_tx_ledger
      split: prod.splits sum.splits)

lemma executeBatch_ledger:
  "executeBatch sem qs (w\<lparr>ledger := l\<rparr>) = apsnd (\<lambda>w. w\<lparr>ledger := l\<rparr>) (executeBatch sem qs w)"
  by (simp add: executeBatch_def connect_ledger batch_try_ledger rollback_tx_ledger release_def
      split: prod.splits sum.splits)

lemma down_ledger:
  "down sem m (emit e (w\<lparr>ledger := l\<rparr>)) = apsnd (\<lambda>w. w\<lparr>ledger := l\<rparr>) (down sem m (emit e w))"
proof -
  have "emit (Invoke Down m) (emit e (w\<lparr>ledger := l\<rparr>))
      = (emit (Invoke Down m) (emit e w))\<lparr>ledger := l\<rparr>"
    by (simp add: emit_def)
  then show ?thesis
    by (simp add: down_def executeBatch_ledger)
qed

subsection \<open>The checksum\<close>

text \<open>
  A checksum has 64 characters, so there are finitely many checksums, and among the units
  that differ in their description only there are two with the same checksum. What is hashed
  does differ for them: the JSON text determines the description.
\<close>

lemma length_hex_digest: "length (hex_digest h) = 64"
  by (induction h rule: hex_digest.induct) (simp add: hex_word_def)

lemma length_generateChecksum: "length (generateChecksum m) = 64"
  by (simp add: generateChecksum_def length_hex_digest)

lemma finite_checksums: "finite (range generateChecksum)"
proof -
  have "finite (range hex_digest)"
    by (rule finite_imageI) simp
  moreover have "range generateChecksum \<subseteq> range hex_digest"
    by (auto simp: generateChecksum_def)
  ultimately show ?thesis by (rule rev_finite_subset)
qed

lemma checksum_collision:
  "\<exists>d1 d2. d1 \<noteq> d2 \<and>
     generateChecksum (m\<lparr>meta := (meta m)\<lparr>description := d1\<rparr>\<rparr>)
       = generateChecksum (m\<lparr>meta := (meta m)\<lparr>description := d2\<rparr>\<rparr>)"
proof (rule ccontr)
  let ?g = "\<lambda>d. generateChecksum (m\<lparr>meta := (meta m)\<lparr>description := d\<rparr>\<rparr>)"
  assume "\<not> ?thesis"
  then have "inj ?g" by (auto simp: inj_on_def)
  moreover have "finite (range ?g)"
    using finite_checksums by (rule rev_finite_subset) auto
  ultimately have "finite (UNIV :: string set)"
    by (rule finite_imageD [rotated])
  then show False
    using infinite_UNIV_listI by blast
qed

lemma hexval_hex_digit: "k < 16 \<Longrightarrow> hexval (hex_digit k) = k"
  by (simp add: hex_digit_def hexval_def)

lemma unescape_escape_char: "unescape (escape_char c @ rest) = c # unescape rest"
proof -
  consider (quote) "c = CHR 0x22" | (backslash) "c = CHR 0x5C"
    | (short) "c \<in> {CHR 0x08, CHR 0x0C, CHR 0x0A, CHR 0x0D, CHR 0x09}"
    | (control) "c \<noteq> CHR 0x22" "c \<noteq> CHR 0x5C"
        "c \<notin> {CHR 0x08, CHR 0x0C, CHR 0x0A, CHR 0x0D, CHR 0x09}" "(of_char c :: nat) < 32"
    | (plain) "c \<noteq> CHR 0x22" "c \<noteq> CHR 0x5C"
        "c \<notin> {CHR 0x08, CHR 0x0C, CHR 0x0A, CHR 0x0D, CHR 0x09}" "\<not> (of_char c :: nat) < 32"
    by blast
  then show ?thesis
  proof cases
    case quote
    then show ?thesis by (simp add: escape_char_def)
  next
    case backslash
    then show ?thesis by (simp add: escape_char_def)
  next
    case short
    then show ?thesis by (auto simp: escape_char_def)
  next
    case control
    let ?n = "of_char c :: nat"
    have "hexval (hex_digit (?n div 16)) = ?n div 16"
      using control(4) by (intro hexval_hex_digit) simp
    moreover have "hexval (hex_digit (?n mod 16)) = ?n mod 16"
      by (intro hexval_hex_digit) simp
    ultimately have "char_of (16 * hexval (hex_digit (?n div 16)) + hexval (hex_digit (?n mod 16))) = c"
      by simp
    then show ?thesis
      using control by (simp add: escape_char_def)
  next
    case plain
    then have e: "escape_char c = [c]" by (simp add: escape_char_def)
    show ?thesis
      using plain(2) by (cases rest) (simp_all add: e)
  qed
qed

lemma unescape_escaped: "unescape (concat (map escape_char s) @ rest) = s @ unescape rest"
  by (induction s) (simp_all add: unescape_escape_char)

lemma quote_inj: "quote s = quote t \<Longrightarrow> s = t"
proof -
  assume "quote s = quote t"
  then have "concat (map escape_char s) @ [] = concat (map escape_char t) @ []"
    by (simp add: quote_def)
  then have "unescape (concat (map escape_char s) @ []) = unescape (concat (map escape_char t) @ [])"
    by (rule arg_cong)
  then show "s = t"
    unfolding unescape_escaped by simp
qed

lemma JSON_stringify_description:
  assumes "id' a = id' b" and "name a = name b" and "version a = version b"
    and "JSON_stringify a = JSON_stringify b"
  shows "description a = description b"
  using assms by (auto simp: JSON_stringify_def dest: quote_inj)

subsection \<open>Evaluation on the examples\<close>

lemmas run_defs = applyMigrations_def apply_one_def rollbackMigration_def
  validate_def validate_try_def up_def down_def recordMigration_def removeMigrationRecord_def
  executeBatch_def batch_try_def db_defs new_row_def varchar_short issue_def emit_def
  length_generateChecksum

lemmas example_defs = table_sem_def unit_a_def unit_b_def unit_c_def unit_a2_def fresh_def
  row_of_def applied_a_b_def applied_a_a2_def

lemmas compare_defs = compareVersions_def compare_from.simps Number_def is_digit_def
  digits_value_def toDouble_def round53_def or0_def at_index_def strict_neq_def
  js_sub.simps bit_length.simps js_gt0_def

lemma take_chars_replicate:
  "\<not> continuation c \<Longrightarrow> \<not> continuation d \<Longrightarrow> take_chars n (replicate n c @ [d]) = replicate n c"
  by (induction n) simp_all

lemma long_id_stored: "varchar 255 long_id = Some cut_id"
proof -
  have x: "\<not> continuation (CHR ''x'')" and sp: "\<not> continuation (CHR '' '')"
    by (simp_all add: continuation_def)
  have "char_length long_id = 256"
    using x sp by (simp add: char_length_def long_id_def cut_id_def)
  moreover have "take_chars 255 long_id = cut_id"
    using take_chars_replicate [OF x sp, of 255] by (simp add: long_id_def cut_id_def)
  moreover have "drop (length cut_id) long_id = '' ''"
    by (simp add: long_id_def)
  ultimately show ?thesis
    by (simp add: varchar_def)
qed

lemma cut_id_differs: "cut_id \<noteq> long_id" "long_id \<noteq> cut_id"
  by (simp_all add: long_id_def)

section \<open>Claims about loading and ordering\<close>

text \<open>
  Claim C1, as amended. Let \<open>loadMigrations()\<close> complete on a directory listing \<open>files\<close>, and
  let the version of every loaded unit be made of segments that are runs of decimal digits
  with values below \<open>2 ^ 53\<close>. Then on every other order \<open>files'\<close> of the same listing it
  completes as well; the unit list of the Manager then holds the units it held before and
  the units of the files of the listing that end in \<open>.ts\<close> or \<open>.js\<close>, and no other; and the list
  is sorted in ascending order of the versions: for units \<open>a\<close> before \<open>b\<close> in the list, the
  comparison of their versions in the words of the specification, \<open>spec_compare\<close>, is not
  positive. The versions need not be distinct.

  \<open>applyMigrations()\<close> visits the units in exactly the order of that list: the units it
  validates, in the order of the calls, are the whole list when it resolves; when it rejects
  with an error, they are the list up to and including a unit \<open>m\<close>, and the last thing the
  call does is to print \<open>Failed to apply migration <name of m>:\<close> with that error. The units
  whose \<open>up()\<close> is invoked are, in the same order, some of the units validated.
\<close>

theorem loadMigrations_sorted:
  assumes "loadMigrations (Inr files) load mgr w = (Inr (), mgr1, w1)"
    and "\<forall>m\<in>set (migrations mgr1). numeric_version (version (meta m))"
    and "mset files' = mset files"
  shows "\<exists>mgr2 ms.
      loadMigrations (Inr files') load mgr w = (Inr (), mgr2, w)
    \<and> map load (filter (\<lambda>f. endsWith f ''.ts'' \<or> endsWith f ''.js'') files') = map Inr ms
    \<and> mset (migrations mgr2) = mset (migrations mgr) + mset ms
    \<and> mset (migrations mgr2) = mset (migrations mgr1)
    \<and> sorted_wrt
         (\<lambda>a b. spec_compare (segment_values (version (meta a)))
                              (segment_values (version (meta b))) \<le> 0)
         (migrations mgr2)
    \<and> (\<forall>sem w0. \<exists>vs us.
          invoked Validate (trace (snd (applyMigrations sem mgr2 w0)))
            = invoked Validate (trace w0) @ vs
        \<and> invoked Up (trace (snd (applyMigrations sem mgr2 w0))) = invoked Up (trace w0) @ us
        \<and> subseq us vs
        \<and> (case fst (applyMigrations sem mgr2 w0) of
              Inr _ \<Rightarrow> vs = migrations mgr2
            | Inl e \<Rightarrow>
                (\<exists>before m after w2. migrations mgr2 = before @ m # after \<and> vs = before @ [m]
                   \<and> snd (applyMigrations sem mgr2 w0)
                       = emit (ConsoleError (''Failed to apply migration '' @ name (meta m) @ '':'') e)
                           w2)))"
proof -
  let ?P = "\<lambda>f. endsWith f ''.ts'' \<or> endsWith f ''.js''"
  let ?cmp = "\<lambda>a b. compareVersions (version (meta a)) (version (meta b))"
  let ?le = "\<lambda>a b. spec_compare (segment_values (version (meta a)))
                                  (segment_values (version (meta b))) \<le> 0"
  let ?g = "\<lambda>f. projr (load f)"
  define fs where "fs = filter ?P files"
  define fs' where "fs' = filter ?P files'"
  obtain r ms where imp: "import_all load fs (migrations mgr) = (r, ms)"
    by force
  have run: "(case (r, ms) of
         (Inl e, ms) \<Rightarrow>
           (Inl e, mgr\<lparr>migrations := ms\<rparr>,
            emit (ConsoleError ''Failed to load migrations:'' e) w)
       | (Inr _, ms) \<Rightarrow> (Inr (), mgr\<lparr>migrations := Array_sort ?cmp ms\<rparr>, w))
     = (Inr (), mgr1, w1)"
    using assms(1) unfolding loadMigrations_def sum.case fs_def [symmetric] imp .
  have r: "r = Inr ()"
    using run by (cases r) simp_all
  have mgr1: "mgr1 = mgr\<lparr>migrations := Array_sort ?cmp ms\<rparr>"
    using run unfolding r by simp
  have ok: "\<forall>f\<in>set fs. \<exists>m. load f = Inr m"
    using import_all_result [OF imp] r by simp
  have ms: "ms = migrations mgr @ map ?g fs"
    using import_all_success [OF ok, of "migrations mgr"] imp by simp
  have same: "mset fs' = mset fs"
    unfolding fs_def fs'_def mset_filter assms(3) ..
  then have "set fs' = set fs"
    by (rule mset_eq_setD)
  then have ok': "\<forall>f\<in>set fs'. \<exists>m. load f = Inr m"
    using ok by simp
  let ?ms' = "migrations mgr @ map ?g fs'"
  let ?mgr2 = "mgr\<lparr>migrations := Array_sort ?cmp ?ms'\<rparr>"
  have imp': "import_all load fs' (migrations mgr) = (Inr (), ?ms')"
    by (rule import_all_success [OF ok'])
  have 1: "loadMigrations (Inr files') load mgr w = (Inr (), ?mgr2, w)"
    unfolding loadMigrations_def sum.case fs'_def [symmetric] imp' by simp
  have sel: "migrations ?mgr2 = Array_sort ?cmp ?ms'"
    by simp
  have 2: "map load (filter ?P files') = map Inr (map ?g fs')"
    using ok' unfolding fs'_def [symmetric] by auto
  have 3: "mset (migrations ?mgr2) = mset (migrations mgr) + mset (map ?g fs')"
    unfolding sel by (simp add: mset_Array_sort)
  have "image_mset ?g (mset fs') = image_mset ?g (mset fs)"
    unfolding same ..
  then have 4: "mset (migrations ?mgr2) = mset (migrations mgr1)"
    unfolding sel mgr1 ms by (simp add: mset_Array_sort)
  have "sorted_wrt (\<lambda>a b. not_after (version (meta a)) (version (meta b))) (migrations ?mgr2)"
    unfolding sel by (rule sorted_by_version)
  moreover have "?le a b"
    if "a \<in> set (migrations ?mgr2)" and "b \<in> set (migrations ?mgr2)"
      and "not_after (version (meta a)) (version (meta b))" for a b
  proof -
    have "set (migrations ?mgr2) = set (migrations mgr1)"
      using 4 by (rule mset_eq_setD)
    then have "numeric_version (version (meta a))" and "numeric_version (version (meta b))"
      using that(1,2) assms(2) by blast+
    then show ?thesis
      using that(3) by (simp add: not_after_def compareVersions_numeric js_gt0_def)
  qed
  ultimately have 5: "sorted_wrt ?le (migrations ?mgr2)"
    by (rule sorted_wrt_mono_rel [rotated])
  have 6: "\<exists>vs us.
          invoked Validate (trace (snd (applyMigrations sem ?mgr2 w0)))
            = invoked Validate (trace w0) @ vs
        \<and> invoked Up (trace (snd (applyMigrations sem ?mgr2 w0))) = invoked Up (trace w0) @ us
        \<and> subseq us vs
        \<and> (case fst (applyMigrations sem ?mgr2 w0) of
              Inr _ \<Rightarrow> vs = migrations ?mgr2
            | Inl e \<Rightarrow>
                (\<exists>before m after w2. migrations ?mgr2 = before @ m # after \<and> vs = before @ [m]
                   \<and> snd (applyMigrations sem ?mgr2 w0)
                       = emit (ConsoleError (''Failed to apply migration '' @ name (meta m) @ '':'') e)
                           w2))" for sem w0
  proof -
    obtain r' w' where a: "apply_loop sem (migrations ?mgr2) w0 = (r', w')"
      by force
    show ?thesis
      using apply_loop_order [OF a] unfolding applyMigrations_def a fst_conv snd_conv .
  qed
  from 1 2 3 4 5 6 show ?thesis by blast
qed

theorem loadMigrations_sorted_witness:
  "loadMigrations (Inr [''003_c.js'', ''README.md'', ''001_a.ts'', ''002_b.ts''])
       versions_dir \<lparr>migrations = []\<rparr> fresh
     = (Inr (), \<lparr>migrations = [unit_a, unit_b, unit_c]\<rparr>, fresh)
   \<and> list_all (\<lambda>m. numeric_version (version (meta m))) [unit_a, unit_b, unit_c]
   \<and> mset [''002_b.ts'', ''003_c.js'', ''001_a.ts'', ''README.md'']
     = mset [''003_c.js'', ''README.md'', ''001_a.ts'', ''002_b.ts'']
   \<and> loadMigrations (Inr [''002_b.ts'', ''003_c.js'', ''001_a.ts'', ''README.md''])
       versions_dir \<lparr>migrations = []\<rparr> fresh
     = (Inr (), \<lparr>migrations = [unit_a, unit_b, unit_c]\<rparr>, fresh)
   \<and> sorted_wrt
        (\<lambda>a b. spec_compare (segment_values (version (meta a)))
                             (segment_values (version (meta b))) \<le> 0)
        [unit_a, unit_b, unit_c]
   \<and> fst (applyMigrations table_sem \<lparr>migrations = [unit_a, unit_b, unit_c]\<rparr> a_recorded) = Inr ()
   \<and> invoked Validate
        (trace (snd (applyMigrations table_sem \<lparr>migrations = [unit_a, unit_b, unit_c]\<rparr> a_recorded)))
       = [unit_a, unit_b, unit_c]
   \<and> invoked Up
        (trace (snd (applyMigrations table_sem \<lparr>migrations = [unit_a, unit_b, unit_c]\<rparr> a_recorded)))
       = [unit_b, unit_c]"
proof -
  let ?files = "[''003_c.js'', ''README.md'', ''001_a.ts'', ''002_b.ts'']"
  let ?files' = "[''002_b.ts'', ''003_c.js'', ''001_a.ts'', ''README.md'']"
  let ?loaded = "\<lparr>migrations = [unit_a, unit_b, unit_c]\<rparr>"
  let ?run = "applyMigrations table_sem ?loaded a_recorded"
  have cmp: "compareVersions ''1.0.0'' ''1.1.0'' = Num (- 1)"
    "compareVersions ''1.0.0'' ''1.2.0'' = Num (- 2)"
    "compareVersions ''1.1.0'' ''1.0.0'' = Num 1"
    "compareVersions ''1.1.0'' ''1.2.0'' = Num (- 1)"
    "compareVersions ''1.2.0'' ''1.0.0'' = Num 2"
    "compareVersions ''1.2.0'' ''1.1.0'' = Num 1"
    by (simp_all add: compare_defs)
  have sel: "version (meta unit_a) = ''1.0.0''" "version (meta unit_b) = ''1.1.0''"
    "version (meta unit_c) = ''1.2.0''"
    by (simp_all add: unit_a_def unit_b_def unit_c_def)
  have h1: "loadMigrations (Inr ?files) versions_dir \<lparr>migrations = []\<rparr> fresh
     = (Inr (), ?loaded, fresh)"
    by (simp add: loadMigrations_def endsWith_def versions_dir_def Array_sort_def js_gt0_def
        sel cmp)
  have h1': "loadMigrations (Inr ?files') versions_dir \<lparr>migrations = []\<rparr> fresh
     = (Inr (), ?loaded, fresh)"
    by (simp add: loadMigrations_def endsWith_def versions_dir_def Array_sort_def js_gt0_def
        sel cmp)
  have h2: "list_all (\<lambda>m. numeric_version (version (meta m))) [unit_a, unit_b, unit_c]"
    by (simp add: sel numeric_version_def numeric_segment_def is_digit_def digits_value_def)
  then have h2': "\<forall>m\<in>set (migrations ?loaded). numeric_version (version (meta m))"
    by simp
  have h3: "mset ?files' = mset ?files"
    by simp
  have ok: "fst ?run = Inr ()"
    by (simp add: run_defs example_defs a_recorded_def)
  have ups: "invoked Up (trace (snd ?run)) = [unit_b, unit_c]"
    by (simp add: run_defs example_defs a_recorded_def)
  have start: "invoked Validate (trace a_recorded) = []"
    by (simp add: a_recorded_def fresh_def)
  obtain mgr2 where
    l: "loadMigrations (Inr ?files') versions_dir \<lparr>migrations = []\<rparr> fresh = (Inr (), mgr2, fresh)"
    and s: "sorted_wrt
        (\<lambda>a b. spec_compare (segment_values (version (meta a)))
                             (segment_values (version (meta b))) \<le> 0)
        (migrations mgr2)"
    and v: "\<forall>sem w0. \<exists>vs us.
          invoked Validate (trace (snd (applyMigrations sem mgr2 (w0 :: string list world))))
            = invoked Validate (trace w0) @ vs
        \<and> invoked Up (trace (snd (applyMigrations sem mgr2 w0))) = invoked Up (trace w0) @ us
        \<and> subseq us vs
        \<and> (case fst (applyMigrations sem mgr2 w0) of
              Inr _ \<Rightarrow> vs = migrations mgr2
            | Inl e \<Rightarrow>
                (\<exists>before m after w2. migrations mgr2 = before @ m # after \<and> vs = before @ [m]
                   \<and> snd (applyMigrations sem mgr2 w0)
                       = emit (ConsoleError (''Failed to apply migration '' @ name (meta m) @ '':'') e)
                           w2))"
    using loadMigrations_sorted [OF h1 h2' h3] by blast
  have mgr2: "mgr2 = ?loaded"
    using l h1' by simp
  obtain vs where vs: "invoked Validate (trace (snd ?run)) = invoked Validate (trace a_recorded) @ vs"
    and all: "case fst ?run of
        Inr _ \<Rightarrow> vs = migrations ?loaded
      | Inl e \<Rightarrow>
          (\<exists>before m after w2. migrations ?loaded = before @ m # after \<and> vs = before @ [m]
             \<and> snd ?run
                 = emit (ConsoleError (''Failed to apply migration '' @ name (meta m) @ '':'') e) w2)"
    using v [unfolded mgr2, THEN spec, THEN spec, of table_sem a_recorded] by blast
  have "vs = [unit_a, unit_b, unit_c]"
    using all unfolding ok by simp
  then have visits: "invoked Validate (trace (snd ?run)) = [unit_a, unit_b, unit_c]"
    using vs start by simp
  have sorted: "sorted_wrt
        (\<lambda>a b. spec_compare (segment_values (version (meta a)))
                             (segment_values (version (meta b))) \<le> 0)
        [unit_a, unit_b, unit_c]"
    using s unfolding mgr2 by simp
  show ?thesis
    using h1 h2 h3 h1' sorted ok visits ups by blast
qed

text \<open>
  Without the bound on the segments the list need not be in ascending order of the versions.
  The two units below have the distinct versions \<open>9007199254740993\<close> and
  \<open>9007199254740992\<close>, which the comparator takes for equal, and the sort leaves them in the
  order of the listing: the unit with the larger version comes first in the list, and
  \<open>applyMigrations()\<close> visits it first.
\<close>

theorem loadMigrations_large_segment_counterexample:
  "version (meta unit_x) \<noteq> version (meta unit_y)
   \<and> decimal_version (version (meta unit_x)) \<and> decimal_version (version (meta unit_y))
   \<and> loadMigrations (Inr [''001_x.ts'', ''002_y.ts'']) large_dir \<lparr>migrations = []\<rparr> fresh
       = (Inr (), \<lparr>migrations = [unit_x, unit_y]\<rparr>, fresh)
   \<and> spec_compare (segment_values (version (meta unit_x))) (segment_values (version (meta unit_y)))
       = 1
   \<and> fst (applyMigrations table_sem \<lparr>migrations = [unit_x, unit_y]\<rparr> fresh) = Inr ()
   \<and> invoked Validate (trace (snd (applyMigrations table_sem \<lparr>migrations = [unit_x, unit_y]\<rparr> fresh)))
       = [unit_x, unit_y]
   \<and> invoked Up (trace (snd (applyMigrations table_sem \<lparr>migrations = [unit_x, unit_y]\<rparr> fresh)))
       = [unit_x, unit_y]"
proof -
  have sel: "version (meta unit_x) = ''9007199254740993''"
    "version (meta unit_y) = ''9007199254740992''"
    by (simp_all add: unit_x_def unit_y_def)
  have "Number ''9007199254740993'' = Num 9007199254740992"
    by (simp add: Number_def is_digit_def digits_value_def toDouble_def round53_def
        bit_length.simps)
  moreover have "Number ''9007199254740992'' = Num 9007199254740992"
    by (simp add: Number_def is_digit_def digits_value_def toDouble_def round53_def
        bit_length.simps)
  ultimately have cmp: "compareVersions ''9007199254740993'' ''9007199254740992'' = Num 0"
    by (simp add: compareVersions_def compare_from.simps or0_def at_index_def strict_neq_def)
  have "loadMigrations (Inr [''001_x.ts'', ''002_y.ts'']) large_dir \<lparr>migrations = []\<rparr> fresh
       = (Inr (), \<lparr>migrations = [unit_x, unit_y]\<rparr>, fresh)"
    by (simp add: loadMigrations_def endsWith_def large_dir_def Array_sort_def js_gt0_def sel cmp)
  moreover have "spec_compare (segment_values (version (meta unit_x)))
      (segment_values (version (meta unit_y))) = 1"
    by (simp add: sel segment_values_def digits_value_def)
  moreover have "decimal_version (version (meta unit_x))" "decimal_version (version (meta unit_y))"
    by (simp_all add: sel decimal_version_def is_digit_def)
  moreover have "version (meta unit_x) \<noteq> version (meta unit_y)"
    by (simp add: sel)
  moreover have "fst (applyMigrations table_sem \<lparr>migrations = [unit_x, unit_y]\<rparr> fresh) = Inr ()
    \<and> invoked Validate (trace (snd (applyMigrations table_sem \<lparr>migrations = [unit_x, unit_y]\<rparr> fresh)))
        = [unit_x, unit_y]
    \<and> invoked Up (trace (snd (applyMigrations table_sem \<lparr>migrations = [unit_x, unit_y]\<rparr> fresh)))
        = [unit_x, unit_y]"
    by (simp add: run_defs table_sem_def fresh_def unit_x_def unit_y_def)
  ultimately show ?thesis
    by blast
qed

text \<open>
  Claim C2, as amended. For version strings \<open>a\<close> and \<open>b\<close> whose segments are runs of
  decimal digits with values below \<open>2 ^ 53\<close>, \<open>compareVersions(a, b)\<close> is the result of the
  comparison in the words of the specification, \<open>spec_compare\<close>: split on \<open>.\<close>, read every
  segment as an integer, take an absent segment as 0, and return the difference of the first
  pair of unequal segments from the left, or 0 when there is none. In particular \<open>1.0\<close>
  compares equal to \<open>1.0.0\<close>, \<open>2.0\<close> greater than \<open>1.9.9\<close>, and \<open>0.9\<close> less than \<open>0.10\<close>.
\<close>

theorem compareVersions_segmentwise:
  assumes "numeric_version a" and "numeric_version b"
  shows "compareVersions a b = Num (spec_compare (segment_values a) (segment_values b))
       \<and> compareVersions ''1.0'' ''1.0.0'' = Num 0
       \<and> compareVersions ''2.0'' ''1.9.9'' = Num 1
       \<and> compareVersions ''0.9'' ''0.10'' = Num (- 1)"
proof -
  have "compareVersions ''1.0'' ''1.0.0'' = Num 0"
    by (simp add: compare_defs)
  moreover have "compareVersions ''2.0'' ''1.9.9'' = Num 1"
    by (simp add: compare_defs)
  moreover have "compareVersions ''0.9'' ''0.10'' = Num (- 1)"
    by (simp add: compare_defs)
  ultimately show ?thesis
    using compareVersions_numeric [OF assms] by simp
qed

theorem compareVersions_segmentwise_witness:
  "numeric_version ''1.10.2'' \<and> numeric_version ''1.9''
   \<and> segment_values ''1.10.2'' = [1, 10, 2] \<and> segment_values ''1.9'' = [1, 9]
   \<and> compareVersions ''1.10.2'' ''1.9'' = Num 1"
proof -
  have a: "numeric_version ''1.10.2''"
    by (simp add: numeric_version_def numeric_segment_def is_digit_def digits_value_def)
  have b: "numeric_version ''1.9''"
    by (simp add: numeric_version_def numeric_segment_def is_digit_def digits_value_def)
  have va: "segment_values ''1.10.2'' = [1, 10, 2]"
    by (simp add: segment_values_def digits_value_def)
  have vb: "segment_values ''1.9'' = [1, 9]"
    by (simp add: segment_values_def digits_value_def)
  have "compareVersions ''1.10.2'' ''1.9'' = Num 1"
    using compareVersions_segmentwise [OF a b] unfolding va vb by simp
  with a b va vb show ?thesis
    by blast
qed

text \<open>
  Without the bound on the segments the comparison is not the one of the integers: a segment
  is read by \<open>Number\<close> as a double, and \<open>9007199254740993 = 2 ^ 53 + 1\<close> is read as
  \<open>2 ^ 53\<close>. The two versions below are runs of decimal digits whose integers differ, and
  the comparator returns 0 for them.
\<close>

theorem compareVersions_large_segment_counterexample:
  "decimal_version ''9007199254740993'' \<and> decimal_version ''9007199254740992''
   \<and> spec_compare (segment_values ''9007199254740993'') (segment_values ''9007199254740992'') = 1
   \<and> compareVersions ''9007199254740993'' ''9007199254740992'' = Num 0"
proof -
  have "Number ''9007199254740993'' = Num 9007199254740992"
    by (simp add: Number_def is_digit_def digits_value_def toDouble_def round53_def
        bit_length.simps)
  moreover have "Number ''9007199254740992'' = Num 9007199254740992"
    by (simp add: Number_def is_digit_def digits_value_def toDouble_def round53_def
        bit_length.simps)
  ultimately have "compareVersions ''9007199254740993'' ''9007199254740992'' = Num 0"
    by (simp add: compareVersions_def compare_from.simps or0_def at_index_def strict_neq_def)
  moreover have "spec_compare (segment_values ''9007199254740993'')
      (segment_values ''9007199254740992'') = 1"
    by (simp add: segment_values_def digits_value_def)
  moreover have "decimal_version ''9007199254740993''" "decimal_version ''9007199254740992''"
    by (simp_all add: decimal_version_def is_digit_def)
  ultimately show ?thesis
    by blast
qed

section \<open>Claims about the migration unit\<close>

text \<open>
  Claim C5, as amended. \<open>validate()\<close> never throws: the model returns a truth value in every
  world, and whenever an error is caught (a line \<open>Migration validation failed:\<close> is printed)
  the value is \<open>false\<close>. Its only side effect on the database is the creation of the ledger
  table, and only where the table was missing. When no error occurs, the ledger table exists
  afterwards (it was created, empty, exactly if it was missing; an existing ledger is left as
  it was), and the value is \<open>true\<close> if and only if the ledger holds no row with the id of the
  unit. No error occurs when the database rejects none of the calls.
\<close>

theorem validate_contract:
  assumes "validate m w = (b, w')"
  shows "schema w' = schema w
    \<and> (ledger w' \<noteq> ledger w \<longrightarrow> ledger w = None \<and> ledger w' = Some [])
    \<and> (console_errors (trace w') \<noteq> console_errors (trace w) \<longrightarrow> \<not> b)
    \<and> (console_errors (trace w') = console_errors (trace w) \<longrightarrow>
         ledger w' = Some (case ledger w of None \<Rightarrow> [] | Some rows \<Rightarrow> rows)
         \<and> b = (id' (meta m) \<notin> recorded w))
    \<and> (undisturbed w \<longrightarrow> console_errors (trace w') = console_errors (trace w))"
proof -
  note o = validate_outcome [OF assms]
  have "ledger w' \<noteq> ledger w \<longrightarrow> ledger w = None \<and> ledger w' = Some []"
    using o by (cases "ledger w") auto
  moreover have "console_errors (trace w') \<noteq> console_errors (trace w) \<longrightarrow> \<not> b"
    using validate_error [OF assms] by blast
  moreover have "console_errors (trace w') = console_errors (trace w) \<longrightarrow>
         ledger w' = Some (case ledger w of None \<Rightarrow> [] | Some rows \<Rightarrow> rows)
         \<and> b = (id' (meta m) \<notin> recorded w)"
    using validate_no_error [OF assms] by blast
  moreover have "undisturbed w \<longrightarrow> console_errors (trace w') = console_errors (trace w)"
    using validate_undisturbed(4) [OF _ assms] by blast
  ultimately show ?thesis
    using validate_fields(1) [OF assms] by blast
qed

theorem validate_contract_witness:
  "fst (validate unit_a fresh) = True
   \<and> undisturbed fresh
   \<and> ledger fresh = None
   \<and> ledger (snd (validate unit_a fresh)) = Some []
   \<and> schema (snd (validate unit_a fresh)) = schema fresh
   \<and> console_errors (trace (snd (validate unit_a fresh))) = console_errors (trace fresh)
   \<and> id' (meta unit_a) \<notin> recorded fresh"
proof -
  have b: "fst (validate unit_a fresh) = True"
    by (simp add: run_defs example_defs)
  then have v: "validate unit_a fresh = (True, snd (validate unit_a fresh))"
    by (simp add: prod_eq_iff)
  have u: "undisturbed fresh" and l: "ledger fresh = None"
    by (simp_all add: undisturbed_def fresh_def)
  have i: "id' (meta unit_a) \<notin> recorded fresh"
    by (simp add: recorded_def fresh_def)
  note c = validate_contract [OF v]
  from c u have e: "console_errors (trace (snd (validate unit_a fresh))) = console_errors (trace fresh)"
    by blast
  from c e have "ledger (snd (validate unit_a fresh))
                   = Some (case ledger fresh of None \<Rightarrow> [] | Some rows \<Rightarrow> rows)"
    by blast
  then have t: "ledger (snd (validate unit_a fresh)) = Some []"
    by (simp add: l)
  from c have s: "schema (snd (validate unit_a fresh)) = schema fresh"
    by blast
  show ?thesis
    using b u l t s e i by blast
qed

text \<open>
  A missing table is not created in every case: below, the ledger table is missing and the
  database rejects the first query, the check for the table. The error is caught, the value
  is \<open>false\<close>, and the table is still missing.
\<close>

theorem validate_missing_table_counterexample:
  "ledger (fresh\<lparr>faults := [True]\<rparr>) = None
   \<and> fst (validate unit_a (fresh\<lparr>faults := [True]\<rparr>)) = False
   \<and> ledger (snd (validate unit_a (fresh\<lparr>faults := [True]\<rparr>))) = None
   \<and> console_errors (trace (snd (validate unit_a (fresh\<lparr>faults := [True]\<rparr>))))
       = [(''Migration validation failed:'', QueryError TableExists)]"
  by (simp add: run_defs example_defs)




section \<open>Claims about applyMigrations\<close>

text \<open>
  Claim C4, as amended. Let the loaded list be \<open>before @ m # after\<close>, let the loop have gone
  through the units of \<open>before\<close> without an error, let \<open>validate()\<close> of unit \<open>m\<close> return
  \<open>true\<close> and let its \<open>up()\<close> fail with the error \<open>e\<close>. Then \<open>applyMigrations()\<close> rejects with that same error \<open>e\<close>,
  unchanged, after printing \<open>Failed to apply migration <name of m>:\<close>; the unit is named in
  that line only. What the earlier units left behind stays: the schema is the one they
  produced, the ledger holds the same ids as when the loop reached \<open>m\<close> (and it holds a row
  for every unit of \<open>before\<close>, under its id, cut to the 255 characters of the column where it
  is longer, provided none of them was skipped because its validation failed internally). No
  ledger row is written for \<open>m\<close>: \<open>recordMigration\<close> is not invoked for it and its id is not
  in the ledger. No unit of \<open>after\<close> is attempted: the units validated are those of \<open>before\<close>, then \<open>m\<close>, and no other.
\<close>

theorem applyMigrations_stops_at_failure:
  assumes "migrations mgr = before @ m # after"
    and "apply_loop sem before w = (Inr (), w1)"
    and "validate m w1 = (True, w2)"
    and "up sem m (emit (ConsoleLog (''Applying migration: '' @ name (meta m) @ '' (''
                                       @ version (meta m) @ '')'')) w2) = (Inl e, w3)"
  shows "applyMigrations sem mgr w =
           (Inl e, emit (ConsoleError (''Failed to apply migration '' @ name (meta m) @ '':'') e) w3)
    \<and> schema w3 = schema w1
    \<and> ledger w3 = ledger w2
    \<and> recorded w3 = recorded w1
    \<and> id' (meta m) \<notin> recorded w3
    \<and> (console_errors (trace w1) = console_errors (trace w) \<longrightarrow>
         (\<forall>u\<in>set before. entered u w3))
    \<and> invoked RecordMigration (trace w3) = invoked RecordMigration (trace w1)
    \<and> invoked Up (trace w3) = invoked Up (trace w1) @ [m]
    \<and> invoked Validate (trace w3) = invoked Validate (trace w) @ before @ [m]"
proof -
  note vf = validate_fields [OF assms(3)] and vc = validate_cases [OF assms(3)]
  note uf = up_frame [OF assms(4)]
  have one: "apply_one sem m w1 =
      (Inl e, emit (ConsoleError (''Failed to apply migration '' @ name (meta m) @ '':'') e) w3)"
    using apply_one_outcome(2) [OF assms(3) _ assms(4)] by simp
  have "applyMigrations sem mgr w =
      (Inl e, emit (ConsoleError (''Failed to apply migration '' @ name (meta m) @ '':'') e) w3)"
    unfolding applyMigrations_def assms(1) apply_loop_append
    using assms(2) one by simp
  moreover have "schema w3 = schema w1"
    using uf(3) vf(1) by (simp add: emit_fields)
  moreover have l: "ledger w3 = ledger w2"
    using uf(1) by (simp add: emit_fields)
  moreover have r: "recorded w3 = recorded w1"
    using l vc(5) by (simp add: recorded_def)
  moreover have "id' (meta m) \<notin> recorded w3"
    using r vc(1) by simp
  moreover have "console_errors (trace w1) = console_errors (trace w) \<longrightarrow>
         (\<forall>u\<in>set before. entered u w3)"
    using apply_loop_recorded(3) [OF assms(2)] r by (simp add: entered_def)
  moreover have "invoked RecordMigration (trace w3) = invoked RecordMigration (trace w1)"
    using uf(4) [of RecordMigration] vf(6) [of RecordMigration]
    by (simp add: emit_fields trace_append)
  moreover have "invoked Up (trace w3) = invoked Up (trace w1) @ [m]"
    using uf(4) [of Up] vf(6) [of Up] by (simp add: emit_fields trace_append)
  moreover have "invoked Validate (trace w3) = invoked Validate (trace w) @ before @ [m]"
  proof -
    obtain vs where "invoked Validate (trace w1) = invoked Validate (trace w) @ vs" "vs = before"
      using apply_loop_visits [OF assms(2)] by auto
    then show ?thesis
      using uf(4) [of Validate] vf(6) [of Validate] by (simp add: emit_fields trace_append)
  qed
  ultimately show ?thesis by blast
qed

theorem applyMigrations_stops_at_failure_witness:
  "apply_loop table_sem [unit_a] fresh = (Inr (), after_a)
   \<and> validate unit_b after_a = (True, b_validated)
   \<and> up table_sem unit_b (emit (ConsoleLog ''Applying migration: B (1.1.0)'') b_validated)
       = (Inl (QueryError (Statement ''CREATE t1'')), b_failed)
   \<and> applyMigrations table_sem \<lparr>migrations = [unit_a, unit_b, unit_c]\<rparr> fresh
       = (Inl (QueryError (Statement ''CREATE t1'')),
          emit (ConsoleError ''Failed to apply migration B:'' (QueryError (Statement ''CREATE t1'')))
            b_failed)
   \<and> schema b_failed = [''t1'']
   \<and> recorded b_failed = {''a''}
   \<and> invoked RecordMigration (trace b_failed) = [unit_a]
   \<and> invoked Up (trace b_failed) = [unit_a, unit_b]
   \<and> invoked Validate (trace b_failed) = [unit_a, unit_b]"
proof -
  let ?mgr = "\<lparr>migrations = [unit_a, unit_b, unit_c]\<rparr>"
  have split: "migrations ?mgr = [unit_a] @ unit_b # [unit_c]"
    by simp
  have "fst (apply_loop table_sem [unit_a] fresh) = Inr ()"
    by (simp add: run_defs example_defs)
  then have h1: "apply_loop table_sem [unit_a] fresh = (Inr (), after_a)"
    by (simp add: after_a_def prod_eq_iff)
  have "fst (validate unit_b after_a) = True"
    by (simp add: after_a_def run_defs example_defs)
  then have h2: "validate unit_b after_a = (True, b_validated)"
    by (simp add: b_validated_def prod_eq_iff)
  have "fst (up table_sem unit_b (emit (ConsoleLog ''Applying migration: B (1.1.0)'') b_validated))
          = Inl (QueryError (Statement ''CREATE t1''))"
    by (simp add: b_validated_def after_a_def run_defs example_defs)
  then have h3: "up table_sem unit_b
        (emit (ConsoleLog (''Applying migration: '' @ name (meta unit_b) @ '' (''
                             @ version (meta unit_b) @ '')'')) b_validated)
        = (Inl (QueryError (Statement ''CREATE t1'')), b_failed)"
    by (simp add: b_failed_def prod_eq_iff unit_b_def)
  have tables: "schema after_a = [''t1'']"
    by (simp add: after_a_def run_defs example_defs)
  have rows: "recorded after_a = {''a''}"
    by (simp add: after_a_def recorded_def run_defs example_defs)
  have recs: "invoked RecordMigration (trace after_a) = [unit_a]"
    by (simp add: after_a_def run_defs example_defs)
  have ups: "invoked Up (trace after_a) = [unit_a]"
    by (simp add: after_a_def run_defs example_defs)
  have name: "''Failed to apply migration '' @ name (meta unit_b) @ '':'' = ''Failed to apply migration B:''"
    by (simp add: unit_b_def)
  have line: "''Applying migration: '' @ name (meta unit_b) @ '' ('' @ version (meta unit_b) @ '')''
                = ''Applying migration: B (1.1.0)''"
    by (simp add: unit_b_def)
  note c = applyMigrations_stops_at_failure [OF split h1 h2 h3, unfolded name tables rows recs ups]
  from c have "applyMigrations table_sem ?mgr fresh
       = (Inl (QueryError (Statement ''CREATE t1'')),
          emit (ConsoleError ''Failed to apply migration B:'' (QueryError (Statement ''CREATE t1'')))
            b_failed)"
    by blast
  moreover from c have "schema b_failed = [''t1'']" and "recorded b_failed = {''a''}"
    and "invoked RecordMigration (trace b_failed) = [unit_a]"
    by blast+
  moreover from c have "invoked Up (trace b_failed) = [unit_a, unit_b]"
    by simp
  moreover from c have "invoked Validate (trace b_failed) = [unit_a, unit_b]"
    by (simp add: fresh_def)
  ultimately show ?thesis
    using h1 h2 h3 [unfolded line] by blast
qed

text \<open>
  The error that reaches the caller does not identify the unit. Below, \<open>unit_b\<close> and
  \<open>unit_b2\<close> are two units with different ids and versions. A run that fails at \<open>unit_b\<close> and
  a run that fails at \<open>unit_b2\<close> reject with the same error, the one of the statement that
  failed, and print the same line, which has the name of the unit and nothing else of it.
\<close>

theorem applyMigrations_error_counterexample:
  "id' (meta unit_b) \<noteq> id' (meta unit_b2)
   \<and> version (meta unit_b) \<noteq> version (meta unit_b2)
   \<and> fst (applyMigrations table_sem \<lparr>migrations = [unit_a, unit_b]\<rparr> fresh)
       = Inl (QueryError (Statement ''CREATE t1''))
   \<and> fst (applyMigrations table_sem \<lparr>migrations = [unit_a, unit_b2]\<rparr> fresh)
       = Inl (QueryError (Statement ''CREATE t1''))
   \<and> invoked Up (trace (snd (applyMigrations table_sem \<lparr>migrations = [unit_a, unit_b]\<rparr> fresh)))
       = [unit_a, unit_b]
   \<and> invoked Up (trace (snd (applyMigrations table_sem \<lparr>migrations = [unit_a, unit_b2]\<rparr> fresh)))
       = [unit_a, unit_b2]
   \<and> console_errors (trace (snd (applyMigrations table_sem \<lparr>migrations = [unit_a, unit_b]\<rparr> fresh)))
       = [(''Failed to apply migration B:'', QueryError (Statement ''CREATE t1''))]
   \<and> console_errors (trace (snd (applyMigrations table_sem \<lparr>migrations = [unit_a, unit_b2]\<rparr> fresh)))
       = [(''Failed to apply migration B:'', QueryError (Statement ''CREATE t1''))]"
  by (simp add: run_defs example_defs unit_b2_def)

text \<open>
  Claim C6, as amended. Let the id of every loaded unit have at most 255 characters, the
  length of the column \<open>id\<close> of the ledger, and let a first \<open>applyMigrations()\<close> be fully
  successful: it resolves and no failure is logged during it (a unit whose validation fails
  internally is skipped while the call still resolves; then the failure is logged and the
  run is not fully successful). Then every loaded unit has its row in the ledger, so that
  \<open>validate()\<close> of every loaded unit returns \<open>false\<close> as long as the ledger holds these ids. A
  second call on the same units, whichever calls the database rejects this time, validates
  every unit and resolves with zero \<open>up()\<close> invocations, zero \<open>recordMigration()\<close>
  invocations, and the ledger and the schema unchanged.
\<close>

theorem applyMigrations_second_run:
  assumes "applyMigrations sem mgr (w :: 's world) = (Inr (), w1)"
    and "console_errors (trace w1) = console_errors (trace w)"
    and "\<forall>m\<in>set (migrations mgr). char_length (id' (meta m)) \<le> 255"
    and "applyMigrations sem mgr (w1\<lparr>faults := fs\<rparr>) = (r, w2)"
  shows "(\<forall>m\<in>set (migrations mgr). id' (meta m) \<in> recorded w1)
    \<and> (\<forall>m\<in>set (migrations mgr). \<forall>w0 :: 's world. recorded w0 = recorded w1 \<longrightarrow> \<not> fst (validate m w0))
    \<and> r = Inr ()
    \<and> invoked Validate (trace w2) = invoked Validate (trace w1) @ migrations mgr
    \<and> invoked Up (trace w2) = invoked Up (trace w1)
    \<and> invoked RecordMigration (trace w2) = invoked RecordMigration (trace w1)
    \<and> ledger w2 = ledger w1
    \<and> schema w2 = schema w1"
proof -
  note second = assms(4) [unfolded applyMigrations_def]
  have "\<forall>m\<in>set (migrations mgr). entered m w1"
    using apply_loop_recorded(3) [OF assms(1) [unfolded applyMigrations_def]] assms(2) by simp
  then have rec: "\<forall>m\<in>set (migrations mgr). id' (meta m) \<in> recorded w1"
    using assms(3) by (auto simp: entered_def take_chars_all)
  have no: "\<forall>m\<in>set (migrations mgr). \<forall>w0 :: 's world. recorded w0 = recorded w1 \<longrightarrow> \<not> fst (validate m w0)"
  proof (intro ballI allI impI)
    fix m and w0 :: "'s world"
    assume "m \<in> set (migrations mgr)" and "recorded w0 = recorded w1"
    then have "id' (meta m) \<in> recorded w0"
      using rec by simp
    then show "\<not> fst (validate m w0)"
      using validate_cases(3) [of m w0 "fst (validate m w0)" "snd (validate m w0)"] by simp
  qed
  have "\<forall>m\<in>set (migrations mgr). id' (meta m) \<in> recorded (w1\<lparr>faults := fs\<rparr>)"
    using rec by simp
  from apply_loop_skips [OF this second]
  have skips: "r = Inr () \<and> ledger w2 = ledger w1 \<and> schema w2 = schema w1
      \<and> invoked Up (trace w2) = invoked Up (trace w1)
      \<and> invoked RecordMigration (trace w2) = invoked RecordMigration (trace w1)"
    by simp
  then have r: "r = Inr ()"
    by blast
  have "invoked Validate (trace w2) = invoked Validate (trace w1) @ migrations mgr"
    using apply_loop_visits [OF second] r by auto
  with skips rec no show ?thesis
    by blast
qed

theorem applyMigrations_second_run_witness:
  "applyMigrations table_sem \<lparr>migrations = [unit_a, unit_c]\<rparr> fresh = (Inr (), after_a_c)
   \<and> console_errors (trace after_a_c) = console_errors (trace fresh)
   \<and> char_length (id' (meta unit_a)) \<le> 255 \<and> char_length (id' (meta unit_c)) \<le> 255
   \<and> id' (meta unit_a) \<in> recorded after_a_c
   \<and> id' (meta unit_c) \<in> recorded after_a_c
   \<and> fst (applyMigrations table_sem \<lparr>migrations = [unit_a, unit_c]\<rparr>
             (after_a_c\<lparr>faults := [False, True]\<rparr>)) = Inr ()
   \<and> invoked Validate (trace (snd (applyMigrations table_sem \<lparr>migrations = [unit_a, unit_c]\<rparr>
                                      (after_a_c\<lparr>faults := [False, True]\<rparr>))))
       = [unit_a, unit_c, unit_a, unit_c]
   \<and> invoked Up (trace (snd (applyMigrations table_sem \<lparr>migrations = [unit_a, unit_c]\<rparr>
                                (after_a_c\<lparr>faults := [False, True]\<rparr>)))) = [unit_a, unit_c]
   \<and> ledger (snd (applyMigrations table_sem \<lparr>migrations = [unit_a, unit_c]\<rparr>
                     (after_a_c\<lparr>faults := [False, True]\<rparr>))) = ledger after_a_c
   \<and> schema (snd (applyMigrations table_sem \<lparr>migrations = [unit_a, unit_c]\<rparr>
                     (after_a_c\<lparr>faults := [False, True]\<rparr>))) = [''t1'', ''t3'']"
proof -
  let ?mgr = "\<lparr>migrations = [unit_a, unit_c]\<rparr>"
  let ?again = "applyMigrations table_sem ?mgr (after_a_c\<lparr>faults := [False, True]\<rparr>)"
  have "fst (applyMigrations table_sem ?mgr fresh) = Inr ()"
    by (simp add: run_defs example_defs)
  then have first: "applyMigrations table_sem ?mgr fresh = (Inr (), after_a_c)"
    by (simp add: after_a_c_def prod_eq_iff)
  have quiet: "console_errors (trace after_a_c) = console_errors (trace fresh)"
    by (simp add: after_a_c_def run_defs example_defs)
  have short: "char_length (id' (meta unit_a)) \<le> 255" "char_length (id' (meta unit_c)) \<le> 255"
    by (simp_all add: unit_a_def unit_c_def char_length_def)
  then have ids: "\<forall>m\<in>set (migrations ?mgr). char_length (id' (meta m)) \<le> 255"
    by simp
  have second: "?again = (fst ?again, snd ?again)"
    by simp
  have visits: "invoked Validate (trace after_a_c) = [unit_a, unit_c]"
    by (simp add: after_a_c_def run_defs example_defs)
  have ups: "invoked Up (trace after_a_c) = [unit_a, unit_c]"
    by (simp add: after_a_c_def run_defs example_defs)
  have tables: "schema after_a_c = [''t1'', ''t3'']"
    by (simp add: after_a_c_def run_defs example_defs)
  note c = applyMigrations_second_run [OF first quiet ids second]
  note c1 = c [THEN conjunct1]
  note c3 = c [THEN conjunct2, THEN conjunct2, THEN conjunct1]
  note c4 = c [THEN conjunct2, THEN conjunct2, THEN conjunct2, THEN conjunct1]
  note c5 = c [THEN conjunct2, THEN conjunct2, THEN conjunct2, THEN conjunct2, THEN conjunct1]
  note c7 = c [THEN conjunct2, THEN conjunct2, THEN conjunct2, THEN conjunct2, THEN conjunct2,
      THEN conjunct2, THEN conjunct1]
  note c8 = c [THEN conjunct2, THEN conjunct2, THEN conjunct2, THEN conjunct2, THEN conjunct2,
      THEN conjunct2, THEN conjunct2]
  have "id' (meta unit_a) \<in> recorded after_a_c" and "id' (meta unit_c) \<in> recorded after_a_c"
    using c1 by simp_all
  moreover have "invoked Validate (trace (snd ?again)) = [unit_a, unit_c, unit_a, unit_c]"
    using c4 [unfolded visits] by simp
  moreover have "invoked Up (trace (snd ?again)) = [unit_a, unit_c]"
    using c5 [unfolded ups] .
  moreover have "schema (snd ?again) = [''t1'', ''t3'']"
    using c8 [unfolded tables] .
  ultimately show ?thesis
    using first quiet short c3 c7 by blast
qed

text \<open>
  An id of more than 255 characters that ends in spaces is stored cut to 255 characters,
  and the unit is not found under its own id afterwards. Below, the id of \<open>unit_long\<close> is
  255 times the letter \<open>x\<close> and a space. The first run resolves and logs no failure; the row
  it writes has the id without the space. In the second run \<open>validate()\<close> finds no row with
  the id of the unit and returns \<open>true\<close>, and \<open>up()\<close> is invoked once more.
\<close>

theorem applyMigrations_long_id_counterexample:
  "length (id' (meta unit_long)) = 256
   \<and> fst (applyMigrations table_sem \<lparr>migrations = [unit_long]\<rparr> fresh) = Inr ()
   \<and> console_errors (trace (snd (applyMigrations table_sem \<lparr>migrations = [unit_long]\<rparr> fresh))) = []
   \<and> invoked Up (trace (snd (applyMigrations table_sem \<lparr>migrations = [unit_long]\<rparr> fresh)))
       = [unit_long]
   \<and> recorded (snd (applyMigrations table_sem \<lparr>migrations = [unit_long]\<rparr> fresh)) = {cut_id}
   \<and> invoked Up
        (trace (snd (applyMigrations table_sem \<lparr>migrations = [unit_long]\<rparr>
                       (snd (applyMigrations table_sem \<lparr>migrations = [unit_long]\<rparr> fresh)))))
       = [unit_long, unit_long]"
proof -
  have "length (id' (meta unit_long)) = 256"
    by (simp add: unit_long_def long_id_def cut_id_def)
  moreover have "fst (applyMigrations table_sem \<lparr>migrations = [unit_long]\<rparr> fresh) = Inr ()
    \<and> console_errors (trace (snd (applyMigrations table_sem \<lparr>migrations = [unit_long]\<rparr> fresh))) = []
    \<and> invoked Up (trace (snd (applyMigrations table_sem \<lparr>migrations = [unit_long]\<rparr> fresh)))
        = [unit_long]
    \<and> recorded (snd (applyMigrations table_sem \<lparr>migrations = [unit_long]\<rparr> fresh)) = {cut_id}
    \<and> invoked Up
        (trace (snd (applyMigrations table_sem \<lparr>migrations = [unit_long]\<rparr>
                       (snd (applyMigrations table_sem \<lparr>migrations = [unit_long]\<rparr> fresh)))))
       = [unit_long, unit_long]"
    by (simp add: run_defs table_sem_def fresh_def unit_long_def long_id_stored cut_id_differs
        recorded_def)
  ultimately show ?thesis
    by blast
qed

section \<open>Claims about rollbackMigration\<close>

text \<open>
  Claim C9. When the argument equals the \<open>meta.version\<close> of no loaded unit,
  \<open>rollbackMigration\<close> rejects at once with the error
  \<open>Migration version <version> not found\<close>. The world is returned as it was: no query was
  sent to the database, nothing was printed, and ledger and schema are unchanged.
\<close>

theorem rollbackMigration_not_found:
  assumes "\<forall>m\<in>set (migrations mgr). version (meta m) \<noteq> v"
  shows "rollbackMigration sem mgr v w =
           (Inl (Error (''Migration version '' @ v @ '' not found'')), w)"
proof -
  have "find (\<lambda>m. version (meta m) = v) (migrations mgr) = None"
    using assms by (simp add: find_None_iff)
  then show ?thesis by (simp add: rollbackMigration_def)
qed

theorem rollbackMigration_not_found_witness:
  "version (meta unit_a) \<noteq> ''0''
   \<and> version (meta unit_b) \<noteq> ''0''
   \<and> rollbackMigration table_sem \<lparr>migrations = [unit_a, unit_b]\<rparr> ''0'' fresh =
        (Inl (Error ''Migration version 0 not found''), fresh)"
  using rollbackMigration_not_found [of "\<lparr>migrations = [unit_a, unit_b]\<rparr>" "''0''" table_sem fresh]
  by (simp add: unit_a_def unit_b_def)

text \<open>
  Claim C10, as amended. \<open>rollbackMigration\<close> takes the first loaded unit whose
  \<open>meta.version\<close> equals the argument and reverses it whatever the ledger holds: \<open>down()\<close> is
  invoked and then, once it has returned, \<open>removeMigrationRecord()\<close>, and no other method of a
  unit. Among the queries sent there is none that reads the ledger (neither the existence
  check nor a selection of a row). With any other ledger in place of the present one (one
  without a row for the unit, or no ledger table at all) \<open>down()\<close> has the same outcome and
  the same methods are invoked in the same order.
\<close>

theorem rollbackMigration_ignores_ledger:
  assumes "find (\<lambda>u. version (meta u) = v) (migrations mgr) = Some m"
    and "down sem m
           (emit (ConsoleLog (''Rolling back migration: '' @ name (meta m) @ '' ('' @ v @ '')'')) w)
         = (rd, w1)"
    and "rollbackMigration sem mgr v w = (r, w')"
  shows "invoked Down (trace w') = invoked Down (trace w) @ [m]
    \<and> filter ledger_read (queries_of (trace w')) = filter ledger_read (queries_of (trace w))
    \<and> invoked RemoveMigrationRecord (trace w') =
        invoked RemoveMigrationRecord (trace w) @ (if rd = Inr () then [m] else [])
    \<and> invocations (trace w') =
        invocations (trace w)
          @ (Down, m) # (if rd = Inr () then [(RemoveMigrationRecord, m)] else [])
    \<and> (\<forall>l. fst (down sem m
                  (emit (ConsoleLog (''Rolling back migration: '' @ name (meta m) @ '' (''
                                       @ v @ '')''))
                     (w\<lparr>ledger := l\<rparr>))) = rd
           \<and> invocations (trace (snd (rollbackMigration sem mgr v (w\<lparr>ledger := l\<rparr>))))
               = invocations (trace w'))"
proof -
  let ?line = "ConsoleLog (''Rolling back migration: '' @ name (meta m) @ '' ('' @ v @ '')'')"
  note fr = rollbackMigration_frame [OF assms]
  have other: "fst (down sem m (emit ?line (w\<lparr>ledger := l\<rparr>))) = rd
      \<and> invocations (trace (snd (rollbackMigration sem mgr v (w\<lparr>ledger := l\<rparr>))))
          = invocations (trace w')" for l
  proof -
    have d: "down sem m (emit ?line (w\<lparr>ledger := l\<rparr>)) = (rd, w1\<lparr>ledger := l\<rparr>)"
      using assms(2) by (simp add: down_ledger)
    obtain r2 w2 where r2: "rollbackMigration sem mgr v (w\<lparr>ledger := l\<rparr>) = (r2, w2)"
      by force
    have "invocations (trace w2) = invocations (trace w')"
      using rollbackMigration_frame(6) [OF assms(1) d r2] fr(6) by simp
    then show ?thesis
      using d r2 by simp
  qed
  show ?thesis
    using fr(1,2,3,6) other by blast
qed

theorem rollbackMigration_ignores_ledger_witness:
  "find (\<lambda>u. version (meta u) = ''1.0.0'') [unit_a, unit_b] = Some unit_a
   \<and> ledger (fresh\<lparr>schema := [''t1'']\<rparr>) = None
   \<and> invoked Down (trace (snd (rollbackMigration table_sem \<lparr>migrations = [unit_a, unit_b]\<rparr>
                                   ''1.0.0'' (fresh\<lparr>schema := [''t1'']\<rparr>)))) = [unit_a]
   \<and> filter ledger_read
        (queries_of (trace (snd (rollbackMigration table_sem \<lparr>migrations = [unit_a, unit_b]\<rparr>
                                   ''1.0.0'' (fresh\<lparr>schema := [''t1'']\<rparr>))))) = []
   \<and> invoked RemoveMigrationRecord
        (trace (snd (rollbackMigration table_sem \<lparr>migrations = [unit_a, unit_b]\<rparr>
                       ''1.0.0'' (fresh\<lparr>schema := [''t1'']\<rparr>)))) = [unit_a]
   \<and> invocations
        (trace (snd (rollbackMigration table_sem \<lparr>migrations = [unit_a, unit_b]\<rparr>
                       ''1.0.0'' (fresh\<lparr>schema := [''t1''], ledger := Some [row_of unit_b 0]\<rparr>))))
       = [(Down, unit_a), (RemoveMigrationRecord, unit_a)]
   \<and> schema (snd (rollbackMigration table_sem \<lparr>migrations = [unit_a, unit_b]\<rparr>
                      ''1.0.0'' (fresh\<lparr>schema := [''t1'']\<rparr>))) = []"
proof -
  let ?mgr = "\<lparr>migrations = [unit_a, unit_b]\<rparr>"
  let ?w = "fresh\<lparr>schema := [''t1'']\<rparr>"
  let ?line = "ConsoleLog (''Rolling back migration: '' @ name (meta unit_a) @ '' ('' @ ''1.0.0'' @ '')'')"
  have f: "find (\<lambda>u. version (meta u) = ''1.0.0'') (migrations ?mgr) = Some unit_a"
    by (simp add: unit_a_def)
  have d: "down table_sem unit_a (emit ?line ?w)
             = (Inr (), snd (down table_sem unit_a (emit ?line ?w)))"
    by (simp add: run_defs example_defs prod_eq_iff)
  have r: "rollbackMigration table_sem ?mgr ''1.0.0'' ?w
             = (fst (rollbackMigration table_sem ?mgr ''1.0.0'' ?w),
                snd (rollbackMigration table_sem ?mgr ''1.0.0'' ?w))"
    by simp
  have s: "schema (snd (rollbackMigration table_sem ?mgr ''1.0.0'' ?w)) = []"
    by (simp add: run_defs example_defs)
  have t: "trace ?w = []"
    by (simp add: fresh_def)
  note c = rollbackMigration_ignores_ledger [OF f d r, unfolded t]
  let ?res = "snd (rollbackMigration table_sem ?mgr ''1.0.0'' ?w)"
  note c1 = c [THEN conjunct1]
  note c2 = c [THEN conjunct2, THEN conjunct1]
  note c3 = c [THEN conjunct2, THEN conjunct2, THEN conjunct1]
  note c4 = c [THEN conjunct2, THEN conjunct2, THEN conjunct2, THEN conjunct1]
  note c5 = c [THEN conjunct2, THEN conjunct2, THEN conjunct2, THEN conjunct2,
      THEN spec [where x = "Some [row_of unit_b 0]"], THEN conjunct2]
  have "invocations
      (trace (snd (rollbackMigration table_sem ?mgr ''1.0.0''
                     (fresh\<lparr>schema := [''t1''], ledger := Some [row_of unit_b 0]\<rparr>))))
       = [(Down, unit_a), (RemoveMigrationRecord, unit_a)]"
    using c5 [unfolded c4] by simp
  moreover have "invoked Down (trace ?res) = [unit_a]"
    using c1 by simp
  moreover have "filter ledger_read (queries_of (trace ?res)) = []"
    using c2 by simp
  moreover have "invoked RemoveMigrationRecord (trace ?res) = [unit_a]"
    using c3 by simp
  moreover have "ledger ?w = None"
    by (simp add: fresh_def)
  moreover have "find (\<lambda>u. version (meta u) = ''1.0.0'') [unit_a, unit_b] = Some unit_a"
    using f by simp
  ultimately show ?thesis
    using s by blast
qed

text \<open>
  Only the first unit with the version is reversed. Below, two units with the version
  \<open>1.0.0\<close> are loaded and both have been applied. The rollback of \<open>1.0.0\<close> succeeds, and the
  methods invoked are \<open>down()\<close> and \<open>removeMigrationRecord()\<close> of the first unit: for the
  second unit, whose version equals the argument as well, neither is invoked.
\<close>

theorem rollbackMigration_later_unit_counterexample:
  "unit_a2 \<in> set (migrations \<lparr>migrations = [unit_a, unit_a2]\<rparr>)
   \<and> version (meta unit_a2) = ''1.0.0''
   \<and> fst (rollbackMigration table_sem \<lparr>migrations = [unit_a, unit_a2]\<rparr> ''1.0.0'' applied_a_a2)
       = Inr ()
   \<and> invocations
        (trace (snd (rollbackMigration table_sem \<lparr>migrations = [unit_a, unit_a2]\<rparr> ''1.0.0''
                       applied_a_a2)))
       = [(Down, unit_a), (RemoveMigrationRecord, unit_a)]
   \<and> invoked Down
        (trace (snd (rollbackMigration table_sem \<lparr>migrations = [unit_a, unit_a2]\<rparr> ''1.0.0''
                       applied_a_a2)))
       = [unit_a]
   \<and> unit_a2 \<noteq> unit_a"
  by (simp add: run_defs example_defs)

text \<open>
  Claim C8, as amended. Let \<open>m\<close> be the first loaded unit whose \<open>meta.version\<close> equals the
  argument (the unit that \<open>find\<close> selects). A successful \<open>rollbackMigration(version)\<close> leaves
  the ledger without the rows whose id is the id of \<open>m\<close> and with every other row as it was, in
  the same order; when the ids of the ledger are distinct (the primary key) and the row of \<open>m\<close>
  is present, exactly that one row is removed.
\<close>

theorem rollbackMigration_deletes_row:
  assumes "find (\<lambda>u. version (meta u) = v) (migrations mgr) = Some m"
    and "ledger w = Some rows" and "row \<in> set rows" and "row_id row = id' (meta m)"
    and "rollbackMigration sem mgr v w = (Inr (), w')"
  shows "ledger w' = Some (filter (\<lambda>r. row_id r \<noteq> id' (meta m)) rows)
    \<and> (distinct (map row_id rows) \<longrightarrow>
         (\<exists>before after. rows = before @ row # after \<and> ledger w' = Some (before @ after)))"
proof -
  obtain rd w1 where d: "down sem m
      (emit (ConsoleLog (''Rolling back migration: '' @ name (meta m) @ '' ('' @ v @ '')'')) w)
      = (rd, w1)"
    by force
  have l: "ledger w' = Some (filter (\<lambda>r. row_id r \<noteq> id' (meta m)) rows)"
    using rollbackMigration_frame(4) [OF assms(1) d assms(5)] assms(2) by simp
  have "\<exists>before after. rows = before @ row # after \<and> ledger w' = Some (before @ after)"
    if "distinct (map row_id rows)"
    using filter_distinct_row [OF that assms(3)] l assms(4) by auto
  then show ?thesis using l by blast
qed

theorem rollbackMigration_deletes_row_witness:
  "find (\<lambda>u. version (meta u) = ''1.1.0'') (migrations \<lparr>migrations = [unit_a, unit_b]\<rparr>) = Some unit_b
   \<and> ledger applied_a_b = Some [row_of unit_a 0, row_of unit_b 1]
   \<and> row_id (row_of unit_b 1) = id' (meta unit_b)
   \<and> fst (rollbackMigration table_sem \<lparr>migrations = [unit_a, unit_b]\<rparr> ''1.1.0'' applied_a_b) = Inr ()
   \<and> ledger (snd (rollbackMigration table_sem \<lparr>migrations = [unit_a, unit_b]\<rparr> ''1.1.0'' applied_a_b))
       = Some [row_of unit_a 0]"
proof -
  let ?mgr = "\<lparr>migrations = [unit_a, unit_b]\<rparr>"
  have f: "find (\<lambda>u. version (meta u) = ''1.1.0'') (migrations ?mgr) = Some unit_b"
    by (simp add: unit_a_def unit_b_def)
  have l: "ledger applied_a_b = Some [row_of unit_a 0, row_of unit_b 1]"
    by (simp add: applied_a_b_def)
  have m: "row_of unit_b 1 \<in> set [row_of unit_a 0, row_of unit_b 1]"
    by simp
  have i: "row_id (row_of unit_b 1) = id' (meta unit_b)"
    by (simp add: row_of_def)
  have s: "fst (rollbackMigration table_sem ?mgr ''1.1.0'' applied_a_b) = Inr ()"
    by (simp add: run_defs example_defs)
  then have r: "rollbackMigration table_sem ?mgr ''1.1.0'' applied_a_b
             = (Inr (), snd (rollbackMigration table_sem ?mgr ''1.1.0'' applied_a_b))"
    by (simp add: prod_eq_iff)
  have k: "filter (\<lambda>r. row_id r \<noteq> id' (meta unit_b)) [row_of unit_a 0, row_of unit_b 1]
             = [row_of unit_a 0]"
    by (simp add: row_of_def unit_a_def unit_b_def)
  have "ledger (snd (rollbackMigration table_sem ?mgr ''1.1.0'' applied_a_b)) = Some [row_of unit_a 0]"
    using rollbackMigration_deletes_row [OF f l m i r] unfolding k by blast
  then show ?thesis
    using f l i s by blast
qed

text \<open>
  The unit has to be the first one with the version. Below, two units with the version
  \<open>1.0.0\<close> are loaded and have their rows in the ledger. The rollback of \<open>1.0.0\<close> succeeds;
  the row of the second unit is still there, and the row that is gone is the one of the
  first.
\<close>

theorem rollbackMigration_same_version_counterexample:
  "unit_a2 \<in> set (migrations \<lparr>migrations = [unit_a, unit_a2]\<rparr>)
   \<and> version (meta unit_a2) = ''1.0.0''
   \<and> ledger applied_a_a2 = Some [row_of unit_a 0, row_of unit_a2 1]
   \<and> row_id (row_of unit_a2 1) = id' (meta unit_a2)
   \<and> fst (rollbackMigration table_sem \<lparr>migrations = [unit_a, unit_a2]\<rparr> ''1.0.0'' applied_a_a2) = Inr ()
   \<and> ledger (snd (rollbackMigration table_sem \<lparr>migrations = [unit_a, unit_a2]\<rparr> ''1.0.0'' applied_a_a2))
       = Some [row_of unit_a2 1]"
  by (simp add: run_defs example_defs)

end
